(* ===== verification/Go_Prelude.thy ===== *)
theory Go_Prelude
  imports Main "HOL-Library.Word"
begin

text \<open>
  What the components share: the parts of Go and of its standard library that the sources use.
  A call that may fail or panic returns a \<open>result\<close>; byte slices are lists of \<open>8 word\<close>; slicing
  checks its bounds; \<open>copy\<close>, \<open>encoding/binary\<close> and the \<open>time\<close> package are defined here, with
  the lemmas on them that the component proofs rest on. The locale \<open>codec\<close> is the contract of a
  wire format: it is interpreted by every packet type of the development.

  Collections: \<open>go_run\<close> holds the rewrite rules that run straight-line Go code (binds and slices
  whose bounds are known), \<open>wire_len\<close> the lengths of encoded pieces.
\<close>

unbundle bit_operations_syntax

named_theorems go_run \<open>symbolic execution of straight-line code\<close>
named_theorems wire_len \<open>lengths of encoded pieces\<close>

section \<open>Types\<close>

type_synonym byte = "8 word"
type_synonym bytes = "8 word list"
type_synonym uint32 = "32 word"
type_synonym uint64 = "64 word"

text \<open>\<open>int64\<close> values (\<open>time.Duration\<close>) are 64-bit words read with \<open>sint\<close>.\<close>
type_synonym duration = "64 word"

text \<open>
  A \<open>float64\<close> is kept as its IEEE 754 bit pattern: \<open>math.Float64bits\<close> and
  \<open>math.Float64frombits\<close> are mutually inverse on bit patterns and are the identity here.
\<close>
type_synonym float64 = "64 word"

section \<open>Outcomes of a call\<close>

text \<open>\<open>Ok\<close> a normal return, \<open>Err\<close> a returned error, \<open>Panic\<close> a run-time panic.\<close>

datatype ('e, 'a) result = Ok 'a | Err 'e | Panic

fun bind_r :: "('e, 'a) result \<Rightarrow> ('a \<Rightarrow> ('e, 'b) result) \<Rightarrow> ('e, 'b) result" where
  "bind_r (Ok x) f = f x"
| "bind_r (Err e) f = Err e"
| "bind_r Panic f = Panic"

declare bind_r.simps [go_run]

lemma bind_r_cong [fundef_cong]:
  "m = m' \<Longrightarrow> (\<And>x. m' = Ok x \<Longrightarrow> f x = g x) \<Longrightarrow> bind_r m f = bind_r m' g"
  by (cases m') auto

lemma bind_r_eq_Ok: "bind_r m f = Ok y \<longleftrightarrow> (\<exists>x. m = Ok x \<and> f x = Ok y)"
  by (cases m) auto

lemma bind_r_eq_Err: "bind_r m f = Err e \<longleftrightarrow> m = Err e \<or> (\<exists>x. m = Ok x \<and> f x = Err e)"
  by (cases m) auto

lemma bind_r_eq_Panic: "bind_r m f = Panic \<longleftrightarrow> m = Panic \<or> (\<exists>x. m = Ok x \<and> f x = Panic)"
  by (cases m) auto

fun map_err :: "('e \<Rightarrow> 'f) \<Rightarrow> ('e, 'a) result \<Rightarrow> ('f, 'a) result" where
  "map_err f (Ok x) = Ok x"
| "map_err f (Err e) = Err (f e)"
| "map_err f Panic = Panic"

lemma map_err_eq_Ok [simp]: "map_err f m = Ok x \<longleftrightarrow> m = Ok x"
  by (cases m) auto

lemma map_err_eq_Panic [simp]: "map_err f m = Panic \<longleftrightarrow> m = Panic"
  by (cases m) auto

section \<open>Slices\<close>

text \<open>
  \<open>slice lo hi xs\<close> is \<open>xs[lo:hi]\<close>. Go allows \<open>hi\<close> up to the capacity; the model panics already
  beyond the length, so code that is shown not to panic here does not panic in Go either.
\<close>

definition slice :: "nat \<Rightarrow> nat \<Rightarrow> 'a list \<Rightarrow> ('e, 'a list) result" where
  "slice lo hi xs = (if lo \<le> hi \<and> hi \<le> length xs then Ok (take (hi - lo) (drop lo xs)) else Panic)"

definition index :: "nat \<Rightarrow> 'a list \<Rightarrow> ('e, 'a) result" where
  "index i xs = (if i < length xs then Ok (xs ! i) else Panic)"

text \<open>\<open>copy(dst, src)\<close>: the first \<open>min (len dst) (len src)\<close> elements are overwritten.\<close>

definition go_copy :: "'a list \<Rightarrow> 'a list \<Rightarrow> 'a list" where
  "go_copy dst src = take (length dst) src @ drop (length src) dst"

text \<open>
  \<open>copy(xs[lo:hi], src)\<close>, returning the updated \<open>xs\<close>: \<open>put\<close> where the compiler has checked the
  bounds (constant indices into an array), \<open>copy_to\<close> where they are checked at run time.
\<close>

definition put :: "nat \<Rightarrow> nat \<Rightarrow> 'a list \<Rightarrow> 'a list \<Rightarrow> 'a list" where
  "put lo hi src xs = take lo xs @ go_copy (take (hi - lo) (drop lo xs)) src @ drop hi xs"

definition copy_to :: "nat \<Rightarrow> nat \<Rightarrow> 'a list \<Rightarrow> 'a list \<Rightarrow> ('e, 'a list) result" where
  "copy_to lo hi src xs = (if lo \<le> hi \<and> hi \<le> length xs then Ok (put lo hi src xs) else Panic)"

definition set_index :: "nat \<Rightarrow> 'a \<Rightarrow> 'a list \<Rightarrow> ('e, 'a list) result" where
  "set_index i v xs = (if i < length xs then Ok (xs[i := v]) else Panic)"

text \<open>\<open>make([]byte, n)\<close> and the zero value of a byte array.\<close>

definition zeros :: "nat \<Rightarrow> bytes" where
  "zeros n = replicate n 0"

lemma length_zeros [simp, wire_len]: "length (zeros n) = n"
  by (simp add: zeros_def)

lemma length_go_copy [simp]: "length (go_copy dst src) = length dst"
  by (simp add: go_copy_def)

lemma go_copy_same_length [simp]: "length src = length dst \<Longrightarrow> go_copy dst src = src"
  by (simp add: go_copy_def)

lemma slice_ok [go_run]:
  "lo \<le> hi \<Longrightarrow> hi \<le> length xs \<Longrightarrow> slice lo hi xs = Ok (take (hi - lo) (drop lo xs))"
  by (simp add: slice_def)

lemma index_ok: "i < length xs \<Longrightarrow> index i xs = Ok (xs ! i)"
  by (simp add: index_def)

lemma index_0 [go_run]: "index 0 (x # xs) = Ok x"
  by (simp add: index_def)

lemma set_index_ok: "i < length xs \<Longrightarrow> set_index i v xs = Ok (xs[i := v])"
  by (simp add: set_index_def)

lemma slice_ErrD [simp]: "slice lo hi xs \<noteq> Err e"
  by (simp add: slice_def)

lemma index_ErrD [simp]: "index i xs \<noteq> Err e"
  by (simp add: index_def)

lemma copy_to_ErrD [simp]: "copy_to lo hi src xs \<noteq> Err e"
  by (simp add: copy_to_def)

lemma length_put [simp]: "lo \<le> hi \<Longrightarrow> hi \<le> length xs \<Longrightarrow> length (put lo hi src xs) = length xs"
  by (simp add: put_def)

lemma copy_to_length: "copy_to lo hi src xs = Ok ys \<Longrightarrow> length ys = length xs"
  by (auto simp: copy_to_def split: if_splits)

text \<open>
  Writing the next field: the buffer is \<open>done @ rest\<close> with the written part in front, and a full
  field moves the boundary. Chained, these rules turn a sequence of writes at fixed positions
  into the concatenation of the fields.
\<close>

lemma put_append [go_run]:
  assumes "length pre = lo" "hi = lo + length src" "length src \<le> length rest"
  shows "put lo hi src (pre @ rest) = (pre @ src) @ drop (length src) rest"
  using assms by (simp add: put_def)

lemma put_front [go_run]:
  "hi = length src \<Longrightarrow> length src \<le> length xs \<Longrightarrow> put 0 hi src xs = src @ drop (length src) xs"
  by (simp add: put_def)

lemma copy_to_append [go_run]:
  assumes "length pre = lo" "hi = lo + length src" "length src \<le> length rest"
  shows "copy_to lo hi src (pre @ rest) = Ok ((pre @ src) @ drop (length src) rest)"
  using assms by (simp add: copy_to_def put_append)

lemma set_index_append [go_run]:
  assumes "length pre = i" "1 \<le> length rest"
  shows "set_index i v (pre @ rest) = Ok ((pre @ [v]) @ drop 1 rest)"
  using assms by (cases rest) (auto simp: set_index_def list_update_append)

text \<open>
  Reading: a field that lies behind a prefix is read from what follows the prefix, and a prefix
  and the rest that starts where it ends are put together again.
\<close>

lemma slice_skip [go_run]:
  "length x \<le> lo \<Longrightarrow> lo \<le> hi \<Longrightarrow>
   slice lo hi (x @ y) = slice (lo - length x) (hi - length x) y"
  by (auto simp: slice_def)

lemma index_skip [go_run]: "length x \<le> i \<Longrightarrow> index i (x @ y) = index (i - length x) y"
  by (auto simp: index_def nth_append)

lemma slice_front: "length x = hi \<Longrightarrow> slice 0 hi (x @ y) = Ok x"
  by (simp add: slice_def)

lemma glue: "m = a + n \<Longrightarrow> take n (drop a xs) @ drop m xs = drop a xs"
  by (metis add.commute append_take_drop_id drop_drop)

lemma glue0: "take n xs @ drop n xs = xs"
  by simp

section \<open>encoding/binary\<close>

fun le_bytes :: "nat \<Rightarrow> 'a::len word \<Rightarrow> bytes" where
  "le_bytes 0 w = []"
| "le_bytes (Suc n) w = ucast w # le_bytes n (drop_bit 8 w)"

fun of_le :: "bytes \<Rightarrow> 'a::len word" where
  "of_le [] = 0"
| "of_le (b # bs) = ucast b OR push_bit 8 (of_le bs)"

lemma le_bytes_numeral:
  "le_bytes (numeral n) w = ucast w # le_bytes (pred_numeral n) (drop_bit 8 w)"
  by (simp add: numeral_eq_Suc)

lemma length_le_bytes [simp, wire_len]: "length (le_bytes n w) = n"
  by (induction n arbitrary: w) auto

lemma of_le_le_bytes: "of_le (le_bytes n w) = take_bit (8 * n) w"
proof (induction n arbitrary: w)
  case (Suc n)
  have "ucast (ucast w :: byte) OR push_bit 8 (take_bit (8 * n) (drop_bit 8 w))
      = take_bit (8 * Suc n) w"
    by (rule bit_word_eqI) (auto simp: bit_simps)
  with Suc show ?case by simp
qed simp

lemma of_le_bound: "take_bit (8 * length bs) (of_le bs :: 'a::len word) = of_le bs"
proof (induction bs)
  case (Cons b bs)
  have *: "bit (of_le bs :: 'a word) n \<Longrightarrow> n < 8 * length bs" for n
    by (metis Cons bit_take_bit_iff)
  show ?case
    by (rule bit_word_eqI) (auto simp: bit_simps dest: * bit_imp_le_length)
qed simp

lemma le_bytes_of_le:
  "8 * length bs \<le> LENGTH('a) \<Longrightarrow> le_bytes (length bs) (of_le bs :: 'a::len word) = bs"
proof (induction bs)
  case (Cons b bs)
  have *: "bit (of_le bs :: 'a word) n \<Longrightarrow> n < 8 * length bs" for n
    by (metis of_le_bound bit_take_bit_iff)
  have 1: "ucast (ucast b OR push_bit 8 (of_le bs :: 'a word)) = b"
    using Cons.prems by (intro bit_word_eqI) (auto simp: bit_simps)
  have 2: "drop_bit 8 (ucast b OR push_bit 8 (of_le bs :: 'a word)) = of_le bs"
    using Cons.prems by (intro bit_word_eqI) (auto simp: bit_simps dest: * bit_imp_le_length)
  from Cons 1 2 show ?case by simp
qed simp

text \<open>\<open>binary.BigEndian\<close> and \<open>binary.LittleEndian\<close> on 32 and 64 bits.\<close>

definition be32 :: "uint32 \<Rightarrow> bytes" where "be32 v = rev (le_bytes 4 v)"
definition be64 :: "uint64 \<Rightarrow> bytes" where "be64 v = rev (le_bytes 8 v)"
definition le64 :: "uint64 \<Rightarrow> bytes" where "le64 v = le_bytes 8 v"

definition be_Uint32 :: "bytes \<Rightarrow> ('e, uint32) result" where
  "be_Uint32 b = (if length b < 4 then Panic else Ok (of_le (rev (take 4 b))))"

definition be_Uint64 :: "bytes \<Rightarrow> ('e, uint64) result" where
  "be_Uint64 b = (if length b < 8 then Panic else Ok (of_le (rev (take 8 b))))"

definition le_Uint64 :: "bytes \<Rightarrow> ('e, uint64) result" where
  "le_Uint64 b = (if length b < 8 then Panic else Ok (of_le (take 8 b)))"

lemma length_be32 [simp, wire_len]: "length (be32 v) = 4"
  and length_be64 [simp, wire_len]: "length (be64 w) = 8"
  and length_le64 [simp, wire_len]: "length (le64 w) = 8"
  by (simp_all add: be32_def be64_def le64_def)

lemma be_Uint32_be32 [simp]: "be_Uint32 (be32 v) = Ok v"
  by (simp add: be_Uint32_def be32_def of_le_le_bytes take_bit_word_eq_self)

lemma be_Uint64_be64 [simp]: "be_Uint64 (be64 v) = Ok v"
  by (simp add: be_Uint64_def be64_def of_le_le_bytes take_bit_word_eq_self)

lemma le_Uint64_le64 [simp]: "le_Uint64 (le64 v) = Ok v"
  by (simp add: le_Uint64_def le64_def of_le_le_bytes take_bit_word_eq_self)

lemma be32_of_Uint32: "length b = 4 \<Longrightarrow> be_Uint32 b = Ok v \<Longrightarrow> be32 v = b"
  using le_bytes_of_le [of "rev b", where 'a = 32] by (auto simp: be_Uint32_def be32_def)

lemma be64_of_Uint64: "length b = 8 \<Longrightarrow> be_Uint64 b = Ok v \<Longrightarrow> be64 v = b"
  using le_bytes_of_le [of "rev b", where 'a = 64] by (auto simp: be_Uint64_def be64_def)

lemma le64_of_Uint64: "length b = 8 \<Longrightarrow> le_Uint64 b = Ok v \<Longrightarrow> le64 v = b"
  using le_bytes_of_le [of b, where 'a = 64] by (auto simp: le_Uint64_def le64_def)

lemma be_Uint32_ErrD [simp]: "be_Uint32 b \<noteq> Err e"
  and be_Uint64_ErrD [simp]: "be_Uint64 b \<noteq> Err e"
  and le_Uint64_ErrD [simp]: "le_Uint64 b \<noteq> Err e"
  by (simp_all add: be_Uint32_def be_Uint64_def le_Uint64_def)

text \<open>The reads \<open>binary.BigEndian.Uint32(buf[lo:hi])\<close> and their kin, with what they return.\<close>

definition get_be32 :: "nat \<Rightarrow> nat \<Rightarrow> bytes \<Rightarrow> ('e, uint32) result" where
  "get_be32 lo hi buf = bind_r (slice lo hi buf) be_Uint32"

definition get_be64 :: "nat \<Rightarrow> nat \<Rightarrow> bytes \<Rightarrow> ('e, uint64) result" where
  "get_be64 lo hi buf = bind_r (slice lo hi buf) be_Uint64"

definition get_le64 :: "nat \<Rightarrow> nat \<Rightarrow> bytes \<Rightarrow> ('e, uint64) result" where
  "get_le64 lo hi buf = bind_r (slice lo hi buf) le_Uint64"

text \<open>\<open>copy(arr[:], buf[lo:hi])\<close> into an array of the same size.\<close>

definition get_array :: "nat \<Rightarrow> nat \<Rightarrow> nat \<Rightarrow> bytes \<Rightarrow> ('e, bytes) result" where
  "get_array n lo hi buf = bind_r (slice lo hi buf) (\<lambda>s. Ok (go_copy (zeros n) s))"

lemma get_be32_ok: "hi = lo + 4 \<Longrightarrow> hi \<le> length buf \<Longrightarrow>
    \<exists>v. get_be32 lo hi buf = Ok v \<and> be32 v = take 4 (drop lo buf)"
  using be32_of_Uint32 [of "take 4 (drop lo buf)"]
  by (auto simp: get_be32_def slice_def be_Uint32_def)

lemma get_be64_ok: "hi = lo + 8 \<Longrightarrow> hi \<le> length buf \<Longrightarrow>
    \<exists>v. get_be64 lo hi buf = Ok v \<and> be64 v = take 8 (drop lo buf)"
  using be64_of_Uint64 [of "take 8 (drop lo buf)"]
  by (auto simp: get_be64_def slice_def be_Uint64_def)

lemma get_le64_ok: "hi = lo + 8 \<Longrightarrow> hi \<le> length buf \<Longrightarrow>
    \<exists>v. get_le64 lo hi buf = Ok v \<and> le64 v = take 8 (drop lo buf)"
  using le64_of_Uint64 [of "take 8 (drop lo buf)"]
  by (auto simp: get_le64_def slice_def le_Uint64_def)

lemma get_le64_val:
  "hi = lo + 8 \<Longrightarrow> hi \<le> length buf \<Longrightarrow> get_le64 lo hi buf = Ok (of_le (take 8 (drop lo buf)))"
  by (simp add: get_le64_def slice_def le_Uint64_def)

lemma get_array_ok: "hi = lo + n \<Longrightarrow> hi \<le> length buf \<Longrightarrow>
    get_array n lo hi buf = Ok (take n (drop lo buf))"
  by (simp add: get_array_def slice_def)

text \<open>The same reads on a buffer that is a concatenation of fields.\<close>

lemma get_skip [go_run]:
  assumes "length x \<le> lo" "lo \<le> hi"
  shows "get_be32 lo hi (x @ y) = get_be32 (lo - length x) (hi - length x) y"
    and "get_be64 lo hi (x @ y) = get_be64 (lo - length x) (hi - length x) y"
    and "get_le64 lo hi (x @ y) = get_le64 (lo - length x) (hi - length x) y"
    and "get_array n lo hi (x @ y) = get_array n (lo - length x) (hi - length x) y"
  using assms by (simp_all add: get_be32_def get_be64_def get_le64_def get_array_def slice_skip)

lemma get_skip_Cons [go_run]:
  assumes "1 \<le> lo" "lo \<le> hi"
  shows "get_be32 lo hi (x # y) = get_be32 (lo - 1) (hi - 1) y"
    and "get_be64 lo hi (x # y) = get_be64 (lo - 1) (hi - 1) y"
    and "get_le64 lo hi (x # y) = get_le64 (lo - 1) (hi - 1) y"
    and "get_array n lo hi (x # y) = get_array n (lo - 1) (hi - 1) y"
  using get_skip [of "[x]" lo hi, OF _ assms(2)] assms(1) by auto

lemma index_skip_Cons [go_run]: "1 \<le> i \<Longrightarrow> index i (x # y) = index (i - 1) y"
  using index_skip [of "[x]" i y] by simp

lemma get_front [go_run]:
  "get_be32 0 4 (be32 v @ c) = Ok v"
  "get_be64 0 8 (be64 w @ c) = Ok w"
  "get_le64 0 8 (le64 w @ c) = Ok w"
  "length b = n \<Longrightarrow> hi = n \<Longrightarrow> get_array n 0 hi (b @ c) = Ok b"
  "length b = n \<Longrightarrow> hi = n \<Longrightarrow> get_array n 0 hi b = Ok b"
  by (simp_all add: get_be32_def get_be64_def get_le64_def get_array_def slice_def)

section \<open>Package time\<close>

text \<open>
  A \<open>time.Time\<close> has a wall-clock reading (nanoseconds since the Unix epoch) and, when it comes
  from \<open>time.Now\<close>, a monotonic reading. \<open>Sub\<close> uses the monotonic readings when both times have
  one, and saturates at the range of \<open>time.Duration\<close>.
\<close>

record gotime =
  wall :: int
  mono :: "int option"

definition Second :: int where "Second = 1000000000"

definition zero_time :: gotime where
  "zero_time = \<lparr>wall = - 62135596800 * 1000000000, mono = None\<rparr>"

definition IsZero :: "gotime \<Rightarrow> bool" where
  "IsZero t \<longleftrightarrow> wall t = - 62135596800 * 1000000000"

text \<open>\<open>time.Unix(sec, nsec)\<close>: a wall-clock time without a monotonic reading.\<close>

definition time_Unix :: "int \<Rightarrow> int \<Rightarrow> gotime" where
  "time_Unix sec nsec = \<lparr>wall = sec * Second + nsec, mono = None\<rparr>"

definition sat64 :: "int \<Rightarrow> int" where
  "sat64 d = (if d > 2 ^ 63 - 1 then 2 ^ 63 - 1 else if d < - (2 ^ 63) then - (2 ^ 63) else d)"

definition time_diff :: "gotime \<Rightarrow> gotime \<Rightarrow> int" where
  "time_diff t u = (case (mono t, mono u) of (Some a, Some b) \<Rightarrow> a - b | _ \<Rightarrow> wall t - wall u)"

definition Sub :: "gotime \<Rightarrow> gotime \<Rightarrow> duration" where
  "Sub t u = word_of_int (sat64 (time_diff t u))"

definition Add :: "gotime \<Rightarrow> duration \<Rightarrow> gotime" where
  "Add t d = \<lparr>wall = wall t + sint d, mono = map_option (\<lambda>m. m + sint d) (mono t)\<rparr>"

definition Before :: "gotime \<Rightarrow> gotime \<Rightarrow> bool" where
  "Before t u \<longleftrightarrow> time_diff t u < 0"

lemma sint_word_of_int_sat64 [simp]: "sint (word_of_int (sat64 d) :: 64 word) = sat64 d"
  by (auto simp: signed_of_int sat64_def signed_take_bit_int_eq_self_iff)

lemma sint_Sub: "sint (Sub t u) = sat64 (time_diff t u)"
  by (simp add: Sub_def)

lemma sat64_mono: "a \<le> b \<Longrightarrow> sat64 a \<le> sat64 b"
  by (auto simp: sat64_def)

lemma sat64_id: "- (2 ^ 63) \<le> d \<Longrightarrow> d < 2 ^ 63 \<Longrightarrow> sat64 d = d"
  by (auto simp: sat64_def)

section \<open>The contract of a wire format\<close>

text \<open>
  A decoder that accepts exactly the encodings of the well-formed values, each of them as the
  value it encodes, and that never panics.
\<close>

locale codec =
  fixes enc :: "'a \<Rightarrow> bytes"
    and dec :: "bytes \<Rightarrow> ('e, 'a) result"
    and wf :: "'a \<Rightarrow> bool"
  assumes dec_enc: "wf x \<Longrightarrow> dec (enc x) = Ok x"
    and dec_wf: "dec b = Ok x \<Longrightarrow> wf x"
    and enc_dec: "dec b = Ok x \<Longrightarrow> enc x = b"
    and dec_no_panic: "dec b \<noteq> Panic"
begin

lemma dec_iff: "dec b = Ok x \<longleftrightarrow> wf x \<and> b = enc x"
  using dec_enc dec_wf enc_dec by blast

lemma enc_inj: "wf x \<Longrightarrow> wf y \<Longrightarrow> enc x = enc y \<Longrightarrow> x = y"
  by (metis dec_enc result.inject(1))

lemma dec_inj: "dec b = Ok x \<Longrightarrow> dec b' = Ok x \<Longrightarrow> b = b'"
  using enc_dec by blast

lemma dec_total: "(\<exists>x. wf x \<and> b = enc x \<and> dec b = Ok x) \<or> (\<exists>e. dec b = Err e)"
proof (cases "dec b")
  case (Ok x)
  then show ?thesis using dec_wf [OF Ok] enc_dec [OF Ok, symmetric] by blast
next
  case (Err e)
  then show ?thesis by simp
next
  case Panic
  then show ?thesis using dec_no_panic by simp
qed

end

text \<open>Formats of a fixed size.\<close>

locale fixed_codec = codec +
  fixes sz :: nat
  assumes enc_size: "wf x \<Longrightarrow> length (enc x) = sz"
begin

lemma dec_size: "dec b = Ok x \<Longrightarrow> length b = sz"
  using enc_size [OF dec_wf] enc_dec by metis

text \<open>The decoder peels off one value from a longer buffer.\<close>

lemma dec_take: "wf x \<Longrightarrow> dec (take sz (enc x @ r)) = Ok x"
  by (simp add: enc_size dec_enc)

end

section \<open>Runs\<close>

text \<open>
  A component driven by a sequence of events: \<open>run\<close> folds \<open>step\<close> over the sequence. The lemmas are
  the induction principles for what holds after every sequence.
\<close>

locale event_system =
  fixes step :: "'e \<Rightarrow> 's \<Rightarrow> 's" and run :: "'e list \<Rightarrow> 's \<Rightarrow> 's"
  assumes run_Nil: "run [] s = s"
    and run_Cons: "run (e # es) s = run es (step e s)"
begin

lemma run_append: "run (xs @ ys) s = run ys (run xs s)"
  by (induction xs arbitrary: s) (simp_all add: run_Nil run_Cons)

lemma run_snoc: "run (es @ [e]) s = step e (run es s)"
  by (simp add: run_append run_Cons run_Nil)

lemma run_invariant:
  assumes "I s" "\<And>e s. e \<in> set es \<Longrightarrow> I s \<Longrightarrow> I (step e s)"
  shows "I (run es s)"
  using assms by (induction es arbitrary: s) (simp_all add: run_Nil run_Cons)

text \<open>
  If \<open>P\<close> only becomes true by an event with \<open>Q\<close> and otherwise stays true by events with \<open>R\<close>, then
  whenever \<open>P\<close> holds there was a last event with \<open>Q\<close>, and only events with \<open>R\<close> came after it.
\<close>

lemma since_last:
  assumes step: "\<And>pre e post. es = pre @ e # post \<Longrightarrow> P (step e (run pre s)) \<Longrightarrow>
      Q e (run pre s) \<or> P (run pre s) \<and> R e (run pre s)"
    and "P (run es s)" "\<not> P s"
  shows "\<exists>es1 e es2. es = es1 @ e # es2 \<and> Q e (run es1 s)
     \<and> (\<forall>ys e' zs. es2 = ys @ e' # zs \<longrightarrow> R e' (run (es1 @ e # ys) s))"
  using assms
proof (induction es rule: rev_induct)
  case Nil
  then show ?case by (simp add: run_Nil)
next
  case (snoc e es)
  consider "Q e (run es s)" | "P (run es s)" "R e (run es s)"
    using snoc.prems(1) [of es e "[]"] snoc.prems(2) by (auto simp: run_snoc)
  then show ?case
  proof cases
    case 1
    then show ?thesis by (intro exI [of _ es] exI [of _ e] exI [of _ "[]"]) simp
  next
    case 2
    then obtain es1 e1 es2 where h: "es = es1 @ e1 # es2" "Q e1 (run es1 s)"
      "\<forall>ys e' zs. es2 = ys @ e' # zs \<longrightarrow> R e' (run (es1 @ e1 # ys) s)"
      using snoc.IH snoc.prems(1,3) by (metis append_Cons append_assoc)
    have "R e' (run (es1 @ e1 # ys) s)" if "es2 @ [e] = ys @ e' # zs" for ys e' zs
      using that h 2(2) by (cases zs rule: rev_cases) auto
    with h show ?thesis by (intro exI [of _ es1] exI [of _ e1] exI [of _ "es2 @ [e]"]) auto
  qed
qed

end

end
