(* ===== verification/Signer.thy ===== *)
theory Signer
  imports Go_Prelude
begin

text \<open>
  Signing (\<open>internal/signed/packet.go\<close>, \<open>Signer\<close> and \<open>Ed25519Signer\<close>). The Ed25519 algorithm is
  the one piece of the standard library that stays a parameter: the record \<open>ed25519\<close> carries its
  key derivation, signing and verification, and \<open>ed25519_ok\<close> is what its documentation promises
  (sizes, and that a signature verifies under the public half of the signing key). What the
  library does around the algorithm (key layout, length panics) is defined.

  The locale \<open>message_signer\<close> is the interface \<open>Signer\<close>; \<open>signed_object\<close> extends it with an object that
  carries an authority key and a signature over a payload. It is interpreted by the probe, the
  reply and the location offset.
\<close>

section \<open>crypto/ed25519\<close>

record ed25519 =
  ed_NewKeyFromSeed :: "bytes \<Rightarrow> bytes"
  ed_Sign :: "bytes \<Rightarrow> bytes \<Rightarrow> bytes"
  ed_Verify :: "bytes \<Rightarrow> bytes \<Rightarrow> bytes \<Rightarrow> bool"

text \<open>A private key is a 32-byte seed followed by the public key derived from it.\<close>

definition valid_key :: "ed25519 \<Rightarrow> bytes \<Rightarrow> bool" where
  "valid_key c k \<longleftrightarrow> length k = 64 \<and> ed_NewKeyFromSeed c (take 32 k) = k"

definition ed25519_ok :: "ed25519 \<Rightarrow> bool" where
  "ed25519_ok c \<longleftrightarrow>
     (\<forall>seed. length seed = 32 \<longrightarrow> valid_key c (ed_NewKeyFromSeed c seed)
        \<and> take 32 (ed_NewKeyFromSeed c seed) = seed)
   \<and> (\<forall>k m. valid_key c k \<longrightarrow> length (ed_Sign c k m) = 64
        \<and> ed_Verify c (drop 32 k) m (ed_Sign c k m))"

text \<open>\<open>ed25519.Sign\<close> panics on a private key of the wrong length.\<close>

definition ed25519_Sign :: "ed25519 \<Rightarrow> bytes \<Rightarrow> bytes \<Rightarrow> ('e, bytes) result" where
  "ed25519_Sign c k m = (if length k \<noteq> 64 then Panic else Ok (ed_Sign c k m))"

text \<open>\<open>PrivateKey.Public\<close>: a copy of the bytes from position 32 on.\<close>

definition PrivateKey_Public :: "bytes \<Rightarrow> ('e, bytes) result" where
  "PrivateKey_Public k = (if length k < 32 then Panic else Ok (go_copy (zeros 32) (drop 32 k)))"

section \<open>Ed25519Signer\<close>

record Ed25519Signer =
  key :: bytes

definition NewEd25519Signer :: "bytes \<Rightarrow> Ed25519Signer" where
  "NewEd25519Signer k = \<lparr>key = k\<rparr>"

definition Sign :: "ed25519 \<Rightarrow> Ed25519Signer \<Rightarrow> bytes \<Rightarrow> ('e, bytes) result" where
  "Sign c s message = ed25519_Sign c (key s) message"

definition Public :: "Ed25519Signer \<Rightarrow> ('e, bytes) result" where
  "Public s = PrivateKey_Public (key s)"

definition signer_ok :: "ed25519 \<Rightarrow> Ed25519Signer \<Rightarrow> bool" where
  "signer_ok c s \<longleftrightarrow> ed25519_ok c \<and> valid_key c (key s)"

lemma signer_okD:
  assumes "signer_ok c s"
  shows "length (key s) = 64" "Public s = Ok (drop 32 (key s))"
    "Sign c s m = Ok (ed_Sign c (key s) m)" "length (ed_Sign c (key s) m) = 64"
    "ed_Verify c (drop 32 (key s)) m (ed_Sign c (key s) m)"
proof -
  from assms have ok: "ed25519_ok c" and vk: "valid_key c (key s)"
    by (simp_all add: signer_ok_def)
  from vk show len: "length (key s) = 64"
    by (simp add: valid_key_def)
  from len show "Public s = Ok (drop 32 (key s))" "Sign c s m = Ok (ed_Sign c (key s) m)"
    by (simp_all add: Public_def PrivateKey_Public_def Sign_def ed25519_Sign_def)
  from ok vk show "length (ed_Sign c (key s) m) = 64"
    "ed_Verify c (drop 32 (key s)) m (ed_Sign c (key s) m)"
    by (simp_all add: ed25519_ok_def)
qed

section \<open>The interface Signer\<close>

locale message_signer =
  fixes sgn :: "'c \<Rightarrow> 's \<Rightarrow> bytes \<Rightarrow> ('e, bytes) result"
    and pub :: "'s \<Rightarrow> ('e, bytes) result"
    and vrf :: "'c \<Rightarrow> bytes \<Rightarrow> bytes \<Rightarrow> bytes \<Rightarrow> bool"
    and ok :: "'c \<Rightarrow> 's \<Rightarrow> bool"
  assumes pub_ok: "ok c s \<Longrightarrow> \<exists>pk. pub s = Ok pk \<and> length pk = 32"
    and sgn_ok: "ok c s \<Longrightarrow> \<exists>sg. sgn c s m = Ok sg \<and> length sg = 64"
    and vrf_sgn: "ok c s \<Longrightarrow> pub s = Ok pk \<Longrightarrow> sgn c s m = Ok sg \<Longrightarrow> vrf c pk m sg"

interpretation ed: message_signer Sign Public ed_Verify signer_ok
  by unfold_locales (auto simp: signer_okD)

text \<open>An object that names its signer and carries a signature over its payload.\<close>

locale signed_object = message_signer +
  fixes payload :: "'o \<Rightarrow> bytes"
    and authority :: "'o \<Rightarrow> bytes"
    and signature :: "'o \<Rightarrow> bytes"
    and check :: "'c \<Rightarrow> 'o \<Rightarrow> bool"
    and wf :: "'o \<Rightarrow> bool"
  assumes check_iff: "wf x \<Longrightarrow> check c x \<longleftrightarrow> vrf c (authority x) (payload x) (signature x)"
begin

text \<open>What its own signer sealed passes the check.\<close>

lemma sealed_checks:
  assumes "ok c s" "wf x" "pub s = Ok (authority x)" "sgn c s (payload x) = Ok (signature x)"
  shows "check c x"
  using assms vrf_sgn check_iff by blast

text \<open>
  If the messages that verify under a key are all in \<open>M\<close>, an accepted object that names the key
  has its payload in \<open>M\<close>: unforgeability carries over from messages to objects.
\<close>

lemma check_payload:
  assumes "wf x" "check c x" "\<And>m sg. vrf c (authority x) m sg \<Longrightarrow> m \<in> M"
  shows "payload x \<in> M"
  using assms check_iff by blast

end

section \<open>A scheme that satisfies the hypotheses\<close>

text \<open>
  \<open>ed25519_ok\<close> can hold: a scheme that is no secret at all, but has the promised sizes and verifies
  what it signs. It is used by the examples that show the properties at concrete inputs.
\<close>

definition toy_ed25519 :: ed25519 where
  "toy_ed25519 = \<lparr>ed_NewKeyFromSeed = (\<lambda>seed. seed @ seed),
     ed_Sign = (\<lambda>k m. go_copy (zeros 64) (drop 32 k @ m)),
     ed_Verify = (\<lambda>pk m sg. sg = go_copy (zeros 64) (pk @ m))\<rparr>"

definition toy_signer :: Ed25519Signer where
  "toy_signer = \<lparr>key = replicate 64 1\<rparr>"

lemma toy_ed25519_ok: "ed25519_ok toy_ed25519"
  by (simp add: ed25519_ok_def valid_key_def toy_ed25519_def)

lemma toy_signer_ok: "signer_ok toy_ed25519 toy_signer"
  by (simp add: signer_ok_def toy_ed25519_ok valid_key_def toy_signer_def)
    (simp add: toy_ed25519_def flip: replicate_add)

end
