(* ===== verification/Packet.thy ===== *)
theory Packet
  imports Signer
begin

text \<open>
  The packets of the probing exchange (\<open>internal/signed/packet.go\<close>): the 108-byte probe, the reply
  of 277 to 1122 bytes, their construction, marshalling and signature checks, and the reflector's
  reader of location-offset blobs. Byte arrays \<open>[32]byte\<close> and \<open>[64]byte\<close> are byte lists whose
  length is part of the well-formedness predicates \<open>wf_probe\<close> and \<open>wf_reply\<close>.
\<close>

section \<open>Constants and errors\<close>

definition ProbePacketSize :: nat where [simp]: "ProbePacketSize = 108"
definition LocationOffsetSize :: nat where [simp]: "LocationOffsetSize = 174"
definition MaxOffsets :: nat where [simp]: "MaxOffsets = 5"
definition numOffsetsChallengedBit :: byte where [simp]: "numOffsetsChallengedBit = 0x80"
definition numOffsetsCountMask :: byte where [simp]: "numOffsetsCountMask = 0x7F"
definition replyHeaderSize :: nat where [simp]: "replyHeaderSize = 213"
definition signatureSize :: nat where [simp]: "signatureSize = 64"
definition MinReplyPacketSize :: nat where
  [simp]: "MinReplyPacketSize = replyHeaderSize + signatureSize"
definition MaxReplyPacketSize :: nat where
  "MaxReplyPacketSize = replyHeaderSize + MaxOffsets * LocationOffsetSize + signatureSize"
definition probePayloadSize :: nat where [simp]: "probePayloadSize = 44"

datatype packet_error =
    errInvalidPacket
  | BufferTooSmall nat nat
  | TooManyOffsets nat nat
  | OffsetWrongSize nat nat nat

lemma MaxReplyPacketSize_val [simp]: "MaxReplyPacketSize = 1147"
  by (simp add: MaxReplyPacketSize_def)

section \<open>Data\<close>

record ProbePacket =
  Seq :: uint32
  Sec :: uint32
  Frac :: uint32
  SenderPubkey :: bytes
  ProbeSignature :: bytes

record ReplyPacket =
  Probe :: ProbePacket
  AuthorityPubkey :: bytes
  GeoprobePubkey :: bytes
  MeasurementSlot :: uint64
  Lat :: float64
  Lng :: float64
  SinceLastRxNs :: uint64
  RttNs :: uint64
  Offsets :: "bytes list"
  Challenged :: bool
  Signature :: bytes

definition wf_probe :: "ProbePacket \<Rightarrow> bool" where
  "wf_probe p \<longleftrightarrow> length (SenderPubkey p) = 32 \<and> length (ProbeSignature p) = 64"

definition wf_offsets :: "bytes list \<Rightarrow> bool" where
  "wf_offsets os \<longleftrightarrow> length os \<le> MaxOffsets \<and> (\<forall>b \<in> set os. length b = LocationOffsetSize)"

definition wf_reply :: "ReplyPacket \<Rightarrow> bool" where
  "wf_reply r \<longleftrightarrow> wf_probe (Probe r) \<and> length (AuthorityPubkey r) = 32
     \<and> length (GeoprobePubkey r) = 32 \<and> wf_offsets (Offsets r) \<and> length (Signature r) = 64"

section \<open>Timestamps\<close>

text \<open>
  \<open>ntpTimestamp\<close>: \<open>t.Unix()\<close> is the wall clock in whole seconds, \<open>t.Nanosecond()\<close> the rest below
  a second; both conversions to \<open>uint32\<close> and the product in \<open>uint64\<close> wrap.
\<close>

definition ntpTimestamp :: "gotime \<Rightarrow> uint32 \<times> uint32" where
  "ntpTimestamp t =
     (let secs = (word_of_int (wall t div Second) :: uint32) + 2208988800;
          nanos = (word_of_int (wall t mod Second) :: uint64);
          frac = (ucast ((nanos * 2 ^ 32) div 1000000000) :: uint32)
      in (secs, frac))"

section \<open>Probes\<close>

text \<open>The signed part of a probe, written into a \<open>[44]byte\<close> array field by field.\<close>

definition probe_payload :: "ProbePacket \<Rightarrow> bytes" where
  "probe_payload p =
     (let payload = zeros probePayloadSize;
          payload = put 0 4 (be32 (Seq p)) payload;
          payload = put 4 8 (be32 (Sec p)) payload;
          payload = put 8 12 (be32 (Frac p)) payload
      in put 12 44 (SenderPubkey p) payload)"

definition NewProbePacket ::
    "ed25519 \<Rightarrow> gotime \<Rightarrow> uint32 \<Rightarrow> Ed25519Signer \<Rightarrow> ('e, ProbePacket) result" where
  "NewProbePacket c now sq signer =
     (let (sec, frac) = ntpTimestamp now in
      bind_r (Public signer) (\<lambda>pub.
      let p = \<lparr>Seq = sq, Sec = sec, Frac = frac, SenderPubkey = go_copy (zeros 32) pub,
               ProbeSignature = zeros 64\<rparr> in
      bind_r (Sign c signer (probe_payload p)) (\<lambda>sig.
      Ok (p\<lparr>ProbeSignature := go_copy (zeros 64) sig\<rparr>))))"

definition newChallengedProbePacket ::
    "ed25519 \<Rightarrow> uint32 \<Rightarrow> Ed25519Signer \<Rightarrow> uint64 \<Rightarrow> ('e, ProbePacket) result" where
  "newChallengedProbePacket c sq signer nonce =
     bind_r (Public signer) (\<lambda>pub.
     let p = \<lparr>Seq = sq, Sec = ucast (drop_bit 32 nonce), Frac = ucast (nonce AND 0xFFFFFFFF),
              SenderPubkey = go_copy (zeros 32) pub, ProbeSignature = zeros 64\<rparr> in
     bind_r (Sign c signer (probe_payload p)) (\<lambda>sig.
     Ok (p\<lparr>ProbeSignature := go_copy (zeros 64) sig\<rparr>)))"

definition ProbePacket_Marshal :: "ProbePacket \<Rightarrow> bytes \<Rightarrow> (packet_error, bytes) result" where
  "ProbePacket_Marshal p buf =
     (if length buf < ProbePacketSize then Err (BufferTooSmall (length buf) ProbePacketSize)
      else
      bind_r (copy_to 0 4 (be32 (Seq p)) buf) (\<lambda>buf.
      bind_r (copy_to 4 8 (be32 (Sec p)) buf) (\<lambda>buf.
      bind_r (copy_to 8 12 (be32 (Frac p)) buf) (\<lambda>buf.
      bind_r (copy_to 12 44 (SenderPubkey p) buf) (\<lambda>buf.
      copy_to 44 108 (ProbeSignature p) buf)))))"

definition UnmarshalProbePacket :: "bytes \<Rightarrow> (packet_error, ProbePacket) result" where
  "UnmarshalProbePacket buf =
     (if length buf \<noteq> ProbePacketSize then Err errInvalidPacket
      else
      bind_r (get_be32 0 4 buf) (\<lambda>sq.
      bind_r (get_be32 4 8 buf) (\<lambda>sec.
      bind_r (get_be32 8 12 buf) (\<lambda>frac.
      bind_r (get_array 32 12 44 buf) (\<lambda>pk.
      bind_r (get_array 64 44 108 buf) (\<lambda>sig.
      Ok \<lparr>Seq = sq, Sec = sec, Frac = frac, SenderPubkey = pk, ProbeSignature = sig\<rparr>))))))"

definition ProbePacket_Verify :: "ed25519 \<Rightarrow> ProbePacket \<Rightarrow> bool" where
  "ProbePacket_Verify c p = ed_Verify c (SenderPubkey p) (probe_payload p) (ProbeSignature p)"

section \<open>Replies\<close>

definition ReplyPacket_Size :: "ReplyPacket \<Rightarrow> nat" where
  "ReplyPacket_Size r = replyHeaderSize + length (Offsets r) * LocationOffsetSize + signatureSize"

text \<open>The loop that copies the offset blobs behind the header.\<close>

fun put_offsets :: "nat \<Rightarrow> bytes list \<Rightarrow> bytes \<Rightarrow> (packet_error, bytes) result" where
  "put_offsets off [] buf = Ok buf"
| "put_offsets off (blob # blobs) buf =
     bind_r (copy_to off (off + LocationOffsetSize) blob buf) (\<lambda>buf.
     put_offsets (off + LocationOffsetSize) blobs buf)"

definition numOffsets_byte :: "ReplyPacket \<Rightarrow> byte" where
  "numOffsets_byte r =
     (let numOffsets = (word_of_nat (length (Offsets r)) :: byte)
      in if Challenged r then numOffsets OR numOffsetsChallengedBit else numOffsets)"

text \<open>\<open>marshalPayload\<close> returns the number of bytes written and the buffer it wrote into.\<close>

definition marshalPayload :: "ReplyPacket \<Rightarrow> bytes \<Rightarrow> (packet_error, nat \<times> bytes) result" where
  "marshalPayload r buf =
     (let payloadSize = replyHeaderSize + length (Offsets r) * LocationOffsetSize in
      if length buf < payloadSize then Err (BufferTooSmall (length buf) payloadSize)
      else
      bind_r (slice 0 108 buf) (\<lambda>front.
      bind_r (ProbePacket_Marshal (Probe r) front) (\<lambda>front.
      let buf = front @ drop 108 buf in
      bind_r (copy_to 108 140 (AuthorityPubkey r) buf) (\<lambda>buf.
      bind_r (copy_to 140 172 (GeoprobePubkey r) buf) (\<lambda>buf.
      bind_r (copy_to 172 180 (be64 (MeasurementSlot r)) buf) (\<lambda>buf.
      bind_r (copy_to 180 188 (be64 (Lat r)) buf) (\<lambda>buf.
      bind_r (copy_to 188 196 (be64 (Lng r)) buf) (\<lambda>buf.
      bind_r (copy_to 196 204 (be64 (SinceLastRxNs r)) buf) (\<lambda>buf.
      bind_r (copy_to 204 212 (be64 (RttNs r)) buf) (\<lambda>buf.
      bind_r (set_index 212 (numOffsets_byte r) buf) (\<lambda>buf.
      bind_r (put_offsets replyHeaderSize (Offsets r) buf) (\<lambda>buf.
      Ok (payloadSize, buf)))))))))))))"

definition ReplyPacket_Marshal :: "ReplyPacket \<Rightarrow> bytes \<Rightarrow> (packet_error, nat \<times> bytes) result" where
  "ReplyPacket_Marshal r buf =
     (let size = ReplyPacket_Size r in
      if length buf < size then Err (BufferTooSmall (length buf) size)
      else
      bind_r (marshalPayload r buf) (\<lambda>(payloadSize, buf).
      bind_r (copy_to payloadSize (payloadSize + signatureSize) (Signature r) buf) (\<lambda>buf.
      Ok (size, buf))))"

text \<open>The loop that cuts \<open>n\<close> offset blobs out of the buffer from position \<open>off\<close> on.\<close>

fun get_offsets :: "nat \<Rightarrow> nat \<Rightarrow> bytes \<Rightarrow> (packet_error, bytes list) result" where
  "get_offsets 0 off buf = Ok []"
| "get_offsets (Suc n) off buf =
     bind_r (get_array LocationOffsetSize off (off + LocationOffsetSize) buf) (\<lambda>blob.
     bind_r (get_offsets n (off + LocationOffsetSize) buf) (\<lambda>blobs.
     Ok (blob # blobs)))"

definition UnmarshalReplyPacket :: "bytes \<Rightarrow> (packet_error, ReplyPacket) result" where
  "UnmarshalReplyPacket buf =
     (if length buf < MinReplyPacketSize then Err errInvalidPacket
      else
      bind_r (index 212 buf) (\<lambda>rawNumOffsets.
      let challenged = (rawNumOffsets AND numOffsetsChallengedBit \<noteq> 0);
          numOffsets = unat (rawNumOffsets AND numOffsetsCountMask);
          expectedSize = replyHeaderSize + numOffsets * LocationOffsetSize + signatureSize
      in
      if numOffsets > MaxOffsets then Err errInvalidPacket
      else if length buf \<noteq> expectedSize then Err errInvalidPacket
      else
      bind_r (bind_r (slice 0 108 buf) UnmarshalProbePacket) (\<lambda>probe.
      bind_r (get_be64 172 180 buf) (\<lambda>slot.
      bind_r (get_be64 180 188 buf) (\<lambda>lat.
      bind_r (get_be64 188 196 buf) (\<lambda>lng.
      bind_r (get_be64 196 204 buf) (\<lambda>since.
      bind_r (get_be64 204 212 buf) (\<lambda>rtt.
      bind_r (get_array 32 108 140 buf) (\<lambda>authority.
      bind_r (get_array 32 140 172 buf) (\<lambda>geoprobe.
      bind_r (get_offsets numOffsets replyHeaderSize buf) (\<lambda>blobs.
      bind_r (get_array 64 (length buf - signatureSize) (length buf) buf) (\<lambda>sig.
      Ok \<lparr>Probe = probe, AuthorityPubkey = authority, GeoprobePubkey = geoprobe,
          MeasurementSlot = slot, Lat = lat, Lng = lng, SinceLastRxNs = since, RttNs = rtt,
          Offsets = blobs, Challenged = challenged, Signature = sig\<rparr>))))))))))))"

text \<open>The loop that checks the blob sizes, with the index it reports.\<close>

fun check_offset_sizes :: "nat \<Rightarrow> bytes list \<Rightarrow> (packet_error, unit) result" where
  "check_offset_sizes i [] = Ok ()"
| "check_offset_sizes i (blob # blobs) =
     (if length blob \<noteq> LocationOffsetSize
      then Err (OffsetWrongSize i (length blob) LocationOffsetSize)
      else check_offset_sizes (Suc i) blobs)"

definition NewReplyPacket ::
    "ed25519 \<Rightarrow> ProbePacket \<Rightarrow> Ed25519Signer \<Rightarrow> bytes \<Rightarrow> bytes list \<Rightarrow> uint64 \<Rightarrow> float64 \<Rightarrow>
     float64 \<Rightarrow> uint64 \<Rightarrow> uint64 \<Rightarrow> bool \<Rightarrow> (packet_error, ReplyPacket) result" where
  "NewReplyPacket c probe signer geoprobePubkey offsets slot lat lng sinceLastRxNs rttNs challenged =
     (if length offsets > MaxOffsets then Err (TooManyOffsets (length offsets) MaxOffsets)
      else
      bind_r (check_offset_sizes 0 offsets) (\<lambda>_.
      bind_r (Public signer) (\<lambda>pub.
      let r = \<lparr>Probe = probe, AuthorityPubkey = go_copy (zeros 32) pub,
               GeoprobePubkey = geoprobePubkey, MeasurementSlot = slot, Lat = lat, Lng = lng,
               SinceLastRxNs = sinceLastRxNs, RttNs = rttNs, Offsets = offsets,
               Challenged = challenged, Signature = zeros 64\<rparr>;
          payloadSize = replyHeaderSize + length offsets * LocationOffsetSize in
      bind_r (marshalPayload r (zeros payloadSize)) (\<lambda>(_, payload).
      bind_r (Sign c signer payload) (\<lambda>sig.
      Ok (r\<lparr>Signature := go_copy (zeros 64) sig\<rparr>))))))"

text \<open>
  An error of \<open>marshalPayload\<close> makes the check fail; that it cannot panic either is
  \<open>marshalPayload_no_panic\<close> below.
\<close>

definition ReplyPacket_Verify :: "ed25519 \<Rightarrow> ReplyPacket \<Rightarrow> bool" where
  "ReplyPacket_Verify c r =
     (let payloadSize = replyHeaderSize + length (Offsets r) * LocationOffsetSize in
      case marshalPayload r (zeros payloadSize) of
        Ok (_, payload) \<Rightarrow> ed_Verify c (AuthorityPubkey r) payload (Signature r)
      | _ \<Rightarrow> False)"

section \<open>Reading offset blobs\<close>

record OffsetInfo =
  OI_MeasurementSlot :: uint64
  OI_Lat :: float64
  OI_Lng :: float64
  OI_RttNs :: uint64
  OI_TargetIP :: bytes

text \<open>The Go function returns the zero value and \<open>false\<close> on a short blob: \<open>Ok None\<close> here.\<close>

definition ParseOffsetInfo :: "bytes \<Rightarrow> ('e, OffsetInfo option) result" where
  "ParseOffsetInfo blob =
     (if length blob < LocationOffsetSize then Ok None
      else
      bind_r (slice 169 173 blob) (\<lambda>targetIP.
      bind_r (get_le64 129 137 blob) (\<lambda>slot.
      bind_r (get_le64 137 145 blob) (\<lambda>lat.
      bind_r (get_le64 145 153 blob) (\<lambda>lng.
      bind_r (get_le64 161 169 blob) (\<lambda>rtt.
      Ok (Some \<lparr>OI_MeasurementSlot = slot, OI_Lat = lat, OI_Lng = lng, OI_RttNs = rtt,
                OI_TargetIP = targetIP\<rparr>)))))))"

section \<open>The wire image of a probe\<close>

definition probe_bytes :: "ProbePacket \<Rightarrow> bytes" where
  "probe_bytes p = be32 (Seq p) @ be32 (Sec p) @ be32 (Frac p) @ SenderPubkey p @ ProbeSignature p"

lemma length_probe_bytes [wire_len]: "wf_probe p \<Longrightarrow> length (probe_bytes p) = 108"
  by (simp add: probe_bytes_def wf_probe_def)

lemma probe_payload_eq:
  assumes "length (SenderPubkey p) = 32"
  shows "probe_payload p = be32 (Seq p) @ be32 (Sec p) @ be32 (Frac p) @ SenderPubkey p"
proof -
  have "probe_payload p = (((be32 (Seq p) @ be32 (Sec p)) @ be32 (Frac p)) @ SenderPubkey p) @ []"
    using assms by (simp add: probe_payload_def Let_def go_run del: append_assoc)
  then show ?thesis by simp
qed

lemma ProbePacket_Marshal_eq:
  assumes "wf_probe p" "108 \<le> length buf"
  shows "ProbePacket_Marshal p buf = Ok (probe_bytes p @ drop 108 buf)"
proof -
  have "ProbePacket_Marshal p ([] @ buf) = Ok (probe_bytes p @ drop 108 buf)"
    using assms
    by (simp add: ProbePacket_Marshal_def go_run probe_bytes_def wf_probe_def del: append_assoc append_Nil)
  then show ?thesis by simp
qed

section \<open>The wire image of a reply\<close>

definition reply_payload :: "ReplyPacket \<Rightarrow> bytes" where
  "reply_payload r = probe_bytes (Probe r) @ AuthorityPubkey r @ GeoprobePubkey r
     @ be64 (MeasurementSlot r) @ be64 (Lat r) @ be64 (Lng r) @ be64 (SinceLastRxNs r)
     @ be64 (RttNs r) @ [numOffsets_byte r] @ concat (Offsets r)"

definition reply_bytes :: "ReplyPacket \<Rightarrow> bytes" where
  "reply_bytes r = reply_payload r @ Signature r"

definition payload_size :: "ReplyPacket \<Rightarrow> nat" where
  "payload_size r = replyHeaderSize + length (Offsets r) * LocationOffsetSize"

lemma length_concat_blobs:
  "\<forall>b \<in> set os. length b = LocationOffsetSize \<Longrightarrow> length (concat os) = length os * 174"
  by (induction os) auto

lemma length_reply_payload [wire_len]: "wf_reply r \<Longrightarrow> length (reply_payload r) = payload_size r"
  by (simp add: reply_payload_def payload_size_def wf_reply_def wf_offsets_def length_probe_bytes
      length_concat_blobs)

lemma length_reply_bytes [wire_len]: "wf_reply r \<Longrightarrow> length (reply_bytes r) = ReplyPacket_Size r"
  by (simp add: reply_bytes_def length_reply_payload ReplyPacket_Size_def payload_size_def wf_reply_def)

lemma put_offsets_eq:
  assumes "\<forall>b \<in> set os. length b = LocationOffsetSize" "length pre = off"
    "length os * 174 \<le> length rest"
  shows "put_offsets off os (pre @ rest) = Ok ((pre @ concat os) @ drop (length os * 174) rest)"
  using assms
proof (induction os arbitrary: off pre rest)
  case (Cons b os)
  then have "put_offsets off (b # os) (pre @ rest)
      = put_offsets (off + 174) os ((pre @ b) @ drop 174 rest)"
    by (simp add: copy_to_append del: append_assoc)
  also have "\<dots> = Ok (((pre @ b) @ concat os) @ drop (length os * 174) (drop 174 rest))"
    using Cons.prems by (intro Cons.IH) auto
  finally show ?case by (simp add: add.commute)
qed simp

lemma marshalPayload_eq:
  assumes wf: "wf_reply r" and len: "payload_size r \<le> length buf"
  shows "marshalPayload r buf = Ok (payload_size r, reply_payload r @ drop (payload_size r) buf)"
proof -
  have l: "length (probe_bytes (Probe r)) = 108" "length (AuthorityPubkey r) = 32"
    "length (GeoprobePubkey r) = 32" "wf_probe (Probe r)"
    using wf by (auto simp: wf_reply_def length_probe_bytes)
  have n: "\<not> length buf < 213 + length (Offsets r) * 174" "213 + length (Offsets r) * 174 \<le> length buf"
    using len by (auto simp: payload_size_def)
  have os: "\<forall>b \<in> set (Offsets r). length b = LocationOffsetSize"
    using wf by (simp add: wf_reply_def wf_offsets_def)
  have "marshalPayload r buf = bind_r (put_offsets 213 (Offsets r)
      (((((((((probe_bytes (Probe r) @ AuthorityPubkey r) @ GeoprobePubkey r)
        @ be64 (MeasurementSlot r)) @ be64 (Lat r)) @ be64 (Lng r)) @ be64 (SinceLastRxNs r))
        @ be64 (RttNs r)) @ [numOffsets_byte r]) @ drop 213 buf))
      (\<lambda>buf. Ok (213 + length (Offsets r) * 174, buf))"
    using n l
    by (simp add: marshalPayload_def Let_def go_run ProbePacket_Marshal_eq del: append_assoc)
  then show ?thesis
    using n l os by (simp add: put_offsets_eq reply_payload_def payload_size_def add.commute del: append_assoc)
qed

lemma ReplyPacket_Marshal_eq:
  assumes wf: "wf_reply r" and len: "ReplyPacket_Size r \<le> length buf"
  shows "ReplyPacket_Marshal r buf
    = Ok (ReplyPacket_Size r, reply_bytes r @ drop (ReplyPacket_Size r) buf)"
proof -
  have "payload_size r \<le> length buf" "ReplyPacket_Size r = payload_size r + 64"
    "length (Signature r) = 64" "length (reply_payload r) = payload_size r"
    using len wf by (auto simp: payload_size_def ReplyPacket_Size_def wf_reply_def length_reply_payload)
  then show ?thesis
    using len by (simp add: ReplyPacket_Marshal_def Let_def marshalPayload_eq wf go_run reply_bytes_def add.commute
        del: append_assoc)
qed

text \<open>Marshalling never panics, whatever the packet: the buffer is checked first.\<close>

lemma put_offsets_len:
  "off + length os * 174 \<le> length buf \<Longrightarrow> \<exists>b. put_offsets off os buf = Ok b \<and> length b = length buf"
proof (induction os arbitrary: off buf)
  case (Cons x os)
  then have "copy_to off (off + 174) x buf = (Ok (put off (off + 174) x buf) :: (packet_error, bytes) result)"
    by (simp add: copy_to_def)
  then show ?case using Cons.IH [of "off + 174" "put off (off + 174) x buf"] Cons.prems by simp
qed simp

lemma put_offsets_then:
  assumes "length x = m" "off + length os * 174 \<le> m"
  shows "\<exists>b. bind_r (put_offsets off os x) (\<lambda>buf. Ok (n, buf)) = Ok (n, b) \<and> length b = m"
proof -
  obtain b where "put_offsets off os x = Ok b" "length b = length x"
    using put_offsets_len assms by blast
  then show ?thesis using assms by simp
qed

lemma ProbePacket_Marshal_len:
  "108 \<le> length buf \<Longrightarrow> \<exists>b. ProbePacket_Marshal p buf = Ok b \<and> length b = length buf"
  by (simp add: ProbePacket_Marshal_def copy_to_def)

lemma marshalPayload_total:
  assumes "payload_size r \<le> length buf"
  shows "\<exists>b. marshalPayload r buf = Ok (payload_size r, b) \<and> length b = length buf"
proof -
  have n: "213 + length (Offsets r) * 174 \<le> length buf" "\<not> length buf < 213 + length (Offsets r) * 174"
    using assms by (auto simp: payload_size_def)
  obtain f where f: "ProbePacket_Marshal (Probe r) (take 108 buf) = Ok f" "length f = 108"
    using ProbePacket_Marshal_len [of "take 108 buf"] n by auto
  show ?thesis
    using n f by (simp add: marshalPayload_def Let_def slice_def copy_to_def set_index_def payload_size_def)
      (rule put_offsets_then, auto)
qed

lemma marshalPayload_no_panic: "marshalPayload r buf \<noteq> Panic"
  using marshalPayload_total [of r buf]
  by (cases "payload_size r \<le> length buf") (auto simp: marshalPayload_def payload_size_def Let_def)

lemma ReplyPacket_Verify_eq:
  "wf_reply r \<Longrightarrow> ReplyPacket_Verify c r = ed_Verify c (AuthorityPubkey r) (reply_payload r) (Signature r)"
  by (simp add: ReplyPacket_Verify_def Let_def marshalPayload_eq payload_size_def)

section \<open>Decoding\<close>

lemma Unmarshal_probe_bytes: "wf_probe p \<Longrightarrow> UnmarshalProbePacket (probe_bytes p) = Ok p"
  by (simp add: UnmarshalProbePacket_def length_probe_bytes)
    (simp add: probe_bytes_def wf_probe_def go_run)

lemma UnmarshalProbePacket_total:
  assumes "length buf = 108"
  shows "\<exists>p. UnmarshalProbePacket buf = Ok p \<and> wf_probe p \<and> probe_bytes p = buf"
proof -
  obtain a b d where
    r: "get_be32 0 4 buf = (Ok a :: (packet_error, uint32) result)" "be32 a = take 4 buf"
    "get_be32 4 8 buf = (Ok b :: (packet_error, uint32) result)" "be32 b = take 4 (drop 4 buf)"
    "get_be32 8 12 buf = (Ok d :: (packet_error, uint32) result)" "be32 d = take 4 (drop 8 buf)"
    using assms get_be32_ok [of 4 0 buf] get_be32_ok [of 8 4 buf] get_be32_ok [of 12 8 buf] by auto
  have l: "drop 44 buf = take 64 (drop 44 buf)" using assms by simp
  show ?thesis
    using assms r
    by (simp add: UnmarshalProbePacket_def get_array_ok wf_probe_def probe_bytes_def glue)
qed

lemma UnmarshalProbePacket_Err: "length b \<noteq> 108 \<Longrightarrow> UnmarshalProbePacket b = Err errInvalidPacket"
  by (simp add: UnmarshalProbePacket_def)

interpretation probe_wire: fixed_codec probe_bytes UnmarshalProbePacket wf_probe 108
proof unfold_locales
  fix b x
  show "UnmarshalProbePacket b \<noteq> Panic"
    using UnmarshalProbePacket_total [of b]
    by (cases "length b = 108") (auto simp: UnmarshalProbePacket_def)
  assume "UnmarshalProbePacket b = Ok x"
  moreover from this have "length b = 108"
    by (simp add: UnmarshalProbePacket_def split: if_splits)
  ultimately show "wf_probe x" "probe_bytes x = b"
    using UnmarshalProbePacket_total [of b] by auto
qed (auto simp: Unmarshal_probe_bytes length_probe_bytes)

text \<open>The count byte: the flag in the top bit, the number of offsets in the seven below.\<close>

lemma numOffsets_byte_count:
  assumes "length (Offsets r) \<le> 5"
  shows "unat (numOffsets_byte r AND numOffsetsCountMask) = length (Offsets r)"
    and "(numOffsets_byte r AND numOffsetsChallengedBit \<noteq> 0) = Challenged r"
proof -
  from assms have "length (Offsets r) = 0 \<or> length (Offsets r) = 1 \<or> length (Offsets r) = 2
     \<or> length (Offsets r) = 3 \<or> length (Offsets r) = 4 \<or> length (Offsets r) = 5" by arith
  then show "unat (numOffsets_byte r AND numOffsetsCountMask) = length (Offsets r)"
    "(numOffsets_byte r AND numOffsetsChallengedBit \<noteq> 0) = Challenged r"
    by (auto simp: numOffsets_byte_def Let_def)
qed

lemma numOffsets_byte_decode:
  assumes "length (Offsets r) = unat (raw AND numOffsetsCountMask)"
    "Challenged r = (raw AND numOffsetsChallengedBit \<noteq> 0)"
  shows "numOffsets_byte r = raw"
proof -
  have b: "bit (0x80 :: byte) n \<longleftrightarrow> n = 7" "bit (0x7F :: byte) n \<longleftrightarrow> n < 7" for n
    using bit_exp_iff [of 7 n, where 'a = "8 word"] bit_mask_iff [of 7 n, where 'a = "8 word"]
    by (auto simp: possible_bit_word mask_eq_exp_minus_1)
  have m: "raw AND 0x80 = (if bit raw 7 then 0x80 else 0)"
    by (rule bit_word_eqI) (auto simp: bit_and_iff bit_or_iff b simp del: bit_numeral_word_iff)
  have "(raw AND 0x7F) OR (raw AND 0x80) = raw"
    by (rule bit_word_eqI) (auto simp: bit_and_iff bit_or_iff b simp del: bit_numeral_word_iff)
  then show ?thesis
    using assms m by (auto simp: numOffsets_byte_def Let_def split: if_splits)
qed

lemma get_offsets_concat:
  assumes "\<forall>b \<in> set os. length b = LocationOffsetSize" "length pre = off"
  shows "get_offsets (length os) off (pre @ concat os @ rest) = Ok os"
  using assms
proof (induction os arbitrary: off pre)
  case (Cons b os)
  have "get_offsets (length os) (off + 174) ((pre @ b) @ concat os @ rest) = Ok os"
    using Cons.prems by (intro Cons.IH) auto
  then show ?case using Cons.prems by (simp add: go_run)
qed simp

lemma get_offsets_total:
  assumes "off + n * 174 \<le> length buf"
  shows "\<exists>os. get_offsets n off buf = Ok os \<and> length os = n
    \<and> (\<forall>b \<in> set os. length b = 174) \<and> concat os = take (n * 174) (drop off buf)"
  using assms
proof (induction n arbitrary: off)
  case (Suc n)
  then have "(off + 174) + n * 174 \<le> length buf" by simp
  from Suc.IH [OF this]
  obtain os where os: "get_offsets n (off + 174) buf = Ok os" "length os = n"
    "\<forall>b \<in> set os. length b = 174" "concat os = take (n * 174) (drop (off + 174) buf)"
    by blast
  then show ?case
    using Suc.prems take_add [of 174 "n * 174" "drop off buf"] by (simp add: get_array_ok add.commute)
qed simp

lemma Unmarshal_reply_bytes:
  assumes wf: "wf_reply r"
  shows "UnmarshalReplyPacket (reply_bytes r) = Ok r"
proof -
  have l: "length (probe_bytes (Probe r)) = 108" "length (AuthorityPubkey r) = 32"
    "length (GeoprobePubkey r) = 32" "wf_probe (Probe r)" "length (Signature r) = 64"
    "length (Offsets r) \<le> 5" and os: "\<forall>b \<in> set (Offsets r). length b = LocationOffsetSize"
    using wf by (auto simp: wf_reply_def length_probe_bytes wf_offsets_def)
  have len: "length (reply_bytes r) = 277 + length (Offsets r) * 174"
    using wf by (simp add: length_reply_bytes ReplyPacket_Size_def)
  have "reply_bytes r = (probe_bytes (Probe r) @ AuthorityPubkey r @ GeoprobePubkey r
     @ be64 (MeasurementSlot r) @ be64 (Lat r) @ be64 (Lng r) @ be64 (SinceLastRxNs r)
     @ be64 (RttNs r) @ [numOffsets_byte r]) @ concat (Offsets r) @ Signature r"
    by (simp add: reply_bytes_def reply_payload_def)
  then have off: "get_offsets (length (Offsets r)) 213 (reply_bytes r) = Ok (Offsets r)"
    using l by (simp only:) (rule get_offsets_concat [OF os], simp)
  have sig: "get_array 64 (213 + length (Offsets r) * 174) (277 + length (Offsets r) * 174) (reply_bytes r)
      = (Ok (Signature r) :: (packet_error, bytes) result)"
    using l length_reply_payload [OF wf] by (simp add: reply_bytes_def payload_size_def go_run)
  have raw: "index 212 (reply_bytes r) = (Ok (numOffsets_byte r) :: (packet_error, byte) result)"
    using l by (simp add: reply_bytes_def reply_payload_def go_run)
  have rest:
    "slice 0 108 (reply_bytes r) = (Ok (probe_bytes (Probe r)) :: (packet_error, bytes) result)"
    "get_be64 172 180 (reply_bytes r) = (Ok (MeasurementSlot r) :: (packet_error, uint64) result)"
    "get_be64 180 188 (reply_bytes r) = (Ok (Lat r) :: (packet_error, uint64) result)"
    "get_be64 188 196 (reply_bytes r) = (Ok (Lng r) :: (packet_error, uint64) result)"
    "get_be64 196 204 (reply_bytes r) = (Ok (SinceLastRxNs r) :: (packet_error, uint64) result)"
    "get_be64 204 212 (reply_bytes r) = (Ok (RttNs r) :: (packet_error, uint64) result)"
    "get_array 32 108 140 (reply_bytes r) = (Ok (AuthorityPubkey r) :: (packet_error, bytes) result)"
    "get_array 32 140 172 (reply_bytes r) = (Ok (GeoprobePubkey r) :: (packet_error, bytes) result)"
    using l by (simp_all add: reply_bytes_def reply_payload_def go_run)
  have cnt: "unat (numOffsets_byte r AND 0x7F) = length (Offsets r)"
    "(numOffsets_byte r AND 0x80 \<noteq> 0) = Challenged r"
    using numOffsets_byte_count [OF l(6)] by simp_all
  show ?thesis
    using l(6) by (simp add: UnmarshalReplyPacket_def len raw Let_def cnt rest off sig
        Unmarshal_probe_bytes l(4))
qed

lemma UnmarshalReplyPacket_accepts:
  assumes "length buf = 277 + n * 174" "n \<le> 5" "unat (buf ! 212 AND 0x7F) = n"
  shows "\<exists>r. UnmarshalReplyPacket buf = Ok r \<and> wf_reply r \<and> reply_bytes r = buf"
proof -
  obtain p where p: "UnmarshalProbePacket (take 108 buf) = Ok p" "wf_probe p" "probe_bytes p = take 108 buf"
    using UnmarshalProbePacket_total [of "take 108 buf"] assms(1) by auto
  have g: "\<exists>v. get_be64 lo (lo + 8) buf = (Ok v :: (packet_error, uint64) result)
      \<and> be64 v = take 8 (drop lo buf)" if "lo \<le> 204" for lo
    using that assms(1) by (intro get_be64_ok) auto
  obtain s la ln si rt where
    r: "get_be64 172 180 buf = (Ok s :: (packet_error, uint64) result)" "be64 s = take 8 (drop 172 buf)"
    "get_be64 180 188 buf = (Ok la :: (packet_error, uint64) result)" "be64 la = take 8 (drop 180 buf)"
    "get_be64 188 196 buf = (Ok ln :: (packet_error, uint64) result)" "be64 ln = take 8 (drop 188 buf)"
    "get_be64 196 204 buf = (Ok si :: (packet_error, uint64) result)" "be64 si = take 8 (drop 196 buf)"
    "get_be64 204 212 buf = (Ok rt :: (packet_error, uint64) result)" "be64 rt = take 8 (drop 204 buf)"
    using g [of 172] g [of 180] g [of 188] g [of 196] g [of 204] by auto
  obtain os where os: "get_offsets n 213 buf = Ok os" "length os = n"
    "\<forall>b \<in> set os. length b = 174" "concat os = take (n * 174) (drop 213 buf)"
    using get_offsets_total [of 213 n buf] assms(1) by auto
  let ?r = "\<lparr>Probe = p, AuthorityPubkey = take 32 (drop 108 buf), GeoprobePubkey = take 32 (drop 140 buf),
      MeasurementSlot = s, Lat = la, Lng = ln, SinceLastRxNs = si, RttNs = rt, Offsets = os,
      Challenged = (buf ! 212 AND 0x80 \<noteq> 0), Signature = drop (213 + n * 174) buf\<rparr>"
  have u: "UnmarshalReplyPacket buf = Ok ?r"
    using assms p r os
    by (simp add: UnmarshalReplyPacket_def index_def Let_def slice_def get_array_ok)
  have w: "wf_reply ?r"
    using p(2) os assms by (auto simp: wf_reply_def wf_offsets_def)
  have nb: "numOffsets_byte ?r = buf ! 212"
    using os(2) assms(3) by (intro numOffsets_byte_decode) auto
  have "[buf ! 212] = take 1 (drop 212 buf)"
    using assms(1) by (simp add: take_Suc_conv_app_nth hd_drop_conv_nth take_Suc)
  then have "reply_bytes ?r = buf"
    using p(3) r os(4) assms(1)
    by (simp add: reply_bytes_def reply_payload_def nb glue add.commute)
  with u w show ?thesis by blast
qed

lemma UnmarshalReplyPacket_cases:
  obtains (accept) n where "length buf = 277 + n * 174" "n \<le> 5" "unat (buf ! 212 AND 0x7F) = n"
  | (reject) "UnmarshalReplyPacket buf = Err errInvalidPacket"
proof (cases "277 \<le> length buf \<and> unat (buf ! 212 AND 0x7F) \<le> 5
    \<and> length buf = 277 + unat (buf ! 212 AND 0x7F) * 174")
  case True
  then show ?thesis using accept by blast
next
  case False
  then have "UnmarshalReplyPacket buf = Err errInvalidPacket"
    by (auto simp: UnmarshalReplyPacket_def index_def Let_def)
  then show ?thesis by (rule reject)
qed

interpretation reply_wire: codec reply_bytes UnmarshalReplyPacket wf_reply
proof unfold_locales
  fix b x
  show "UnmarshalReplyPacket b \<noteq> Panic"
    by (cases b rule: UnmarshalReplyPacket_cases) (use UnmarshalReplyPacket_accepts [of b] in auto)
  assume "UnmarshalReplyPacket b = Ok x"
  then show "wf_reply x" "reply_bytes x = b"
    by (cases b rule: UnmarshalReplyPacket_cases; use UnmarshalReplyPacket_accepts [of b] in auto)+
qed (rule Unmarshal_reply_bytes)

section \<open>Construction and signatures\<close>

interpretation probe_sig: signed_object Sign Public ed_Verify signer_ok
  probe_payload SenderPubkey ProbeSignature ProbePacket_Verify wf_probe
  by unfold_locales (simp add: ProbePacket_Verify_def)

interpretation reply_sig: signed_object Sign Public ed_Verify signer_ok
  reply_payload AuthorityPubkey Signature ReplyPacket_Verify wf_reply
  by unfold_locales (simp add: ReplyPacket_Verify_eq)

lemma probe_payload_sig [simp]: "probe_payload (p\<lparr>ProbeSignature := x\<rparr>) = probe_payload p"
  by (simp add: probe_payload_def)

lemma reply_payload_sig [simp]: "reply_payload (r\<lparr>Signature := x\<rparr>) = reply_payload r"
  by (simp add: reply_payload_def numOffsets_byte_def)

text \<open>A new probe is well formed, carries the timestamp it was given and passes its own check.\<close>

lemma NewProbePacket_ok:
  assumes "signer_ok c s"
  shows "\<exists>p. NewProbePacket c now sq s = Ok p \<and> wf_probe p \<and> Seq p = sq
    \<and> (Sec p, Frac p) = ntpTimestamp now \<and> SenderPubkey p = drop 32 (key s) \<and> ProbePacket_Verify c p"
  using signer_okD [OF assms]
  by (cases "ntpTimestamp now") (simp add: NewProbePacket_def signer_okD [OF assms] wf_probe_def
      ProbePacket_Verify_def probe_payload_def)

lemma newChallengedProbePacket_ok:
  assumes "signer_ok c s"
  shows "\<exists>p. newChallengedProbePacket c sq s nonce = Ok p \<and> wf_probe p \<and> Seq p = sq
    \<and> Sec p = ucast (drop_bit 32 nonce) \<and> Frac p = ucast (nonce AND 0xFFFFFFFF)
    \<and> SenderPubkey p = drop 32 (key s) \<and> ProbePacket_Verify c p"
  using signer_okD [OF assms]
  by (simp add: newChallengedProbePacket_def signer_okD [OF assms] wf_probe_def
      ProbePacket_Verify_def probe_payload_def)

text \<open>The nonce as the reflector reads it from the two timestamp fields.\<close>

definition presentedNonce :: "ProbePacket \<Rightarrow> uint64" where
  "presentedNonce p = (push_bit 32 (ucast (Sec p)) OR ucast (Frac p))"

lemma nonce_split:
  "push_bit 32 (ucast (ucast (drop_bit 32 n) :: uint32)) OR ucast (ucast (n AND 0xFFFFFFFF) :: uint32) = (n :: uint64)"
proof -
  have b: "bit (0xFFFFFFFF :: uint64) i \<longleftrightarrow> i < 32" for i
    using bit_mask_iff [of 32 i, where 'a = "64 word"] by (auto simp: possible_bit_word mask_eq_exp_minus_1)
  show ?thesis
    by (rule bit_word_eqI) (auto simp: bit_simps b simp del: bit_numeral_word_iff)
qed

lemma check_offset_sizes_eq:
  "check_offset_sizes i os = Ok () \<longleftrightarrow> (\<forall>b \<in> set os. length b = LocationOffsetSize)"
  "check_offset_sizes i os \<noteq> Panic"
  by (induction os arbitrary: i) auto

lemma check_offset_sizes_Err:
  "\<exists>b \<in> set os. length b \<noteq> LocationOffsetSize \<Longrightarrow>
   \<exists>j. j < length os \<and> length (os ! j) \<noteq> 174 \<and> (\<forall>l<j. length (os ! l) = 174)
     \<and> check_offset_sizes i os = Err (OffsetWrongSize (i + j) (length (os ! j)) 174)"
proof (induction os arbitrary: i)
  case (Cons b os)
  show ?case
  proof (cases "length b = 174")
    case True
    with Cons.prems have "\<exists>b \<in> set os. length b \<noteq> LocationOffsetSize" by auto
    from Cons.IH [OF this, of "Suc i"] obtain j where
      j: "j < length os" "length (os ! j) \<noteq> 174" "\<forall>l<j. length (os ! l) = 174"
      "check_offset_sizes (Suc i) os = Err (OffsetWrongSize (Suc i + j) (length (os ! j)) 174)"
      by blast
    show ?thesis
      by (rule exI [of _ "Suc j"]) (use True j in \<open>auto simp: nth_Cons split: nat.splits\<close>)
  next
    case False
    then show ?thesis by (intro exI [of _ 0]) auto
  qed
qed simp

text \<open>A reply is built exactly when the offsets are acceptable, and then passes its own check.\<close>

lemma NewReplyPacket_ok:
  assumes s: "signer_ok c s" and p: "wf_probe p" and g: "length g = 32" and os: "wf_offsets os"
  shows "\<exists>r. NewReplyPacket c p s g os slot lat lng since rtt ch = Ok r \<and> wf_reply r
    \<and> r = \<lparr>Probe = p, AuthorityPubkey = drop 32 (key s), GeoprobePubkey = g, MeasurementSlot = slot,
        Lat = lat, Lng = lng, SinceLastRxNs = since, RttNs = rtt, Offsets = os, Challenged = ch,
        Signature = Signature r\<rparr>
    \<and> ReplyPacket_Verify c r"
proof -
  let ?r = "\<lparr>Probe = p, AuthorityPubkey = drop 32 (key s), GeoprobePubkey = g, MeasurementSlot = slot,
        Lat = lat, Lng = lng, SinceLastRxNs = since, RttNs = rtt, Offsets = os, Challenged = ch,
        Signature = zeros 64\<rparr>"
  let ?sig = "ed_Sign c (key s) (reply_payload ?r)"
  note sk = signer_okD [OF s]
  have wf: "wf_reply ?r" "wf_reply (?r\<lparr>Signature := ?sig\<rparr>)"
    using p g os sk by (auto simp: wf_reply_def)
  have m: "marshalPayload ?r (zeros (213 + length os * 174)) = Ok (213 + length os * 174, reply_payload ?r)"
    using marshalPayload_eq [OF wf(1), of "zeros (213 + length os * 174)"] by (simp add: payload_size_def)
  have n: "NewReplyPacket c p s g os slot lat lng since rtt ch = Ok (?r\<lparr>Signature := ?sig\<rparr>)"
    using os sk m check_offset_sizes_eq(1) [of 0 os]
    by (simp add: NewReplyPacket_def wf_offsets_def signer_okD [OF s] Let_def)
  have "ReplyPacket_Verify c (?r\<lparr>Signature := ?sig\<rparr>)"
    by (rule reply_sig.sealed_checks [OF s wf(2)])
      (simp_all add: signer_okD [OF s] reply_payload_def numOffsets_byte_def)
  with n wf show ?thesis by auto
qed

subsection \<open>Timestamps\<close>

lemma uint_frac:
  assumes "0 \<le> a" "a < Second"
  shows "uint (ucast (((word_of_int a :: uint64) * 2 ^ 32) div 1000000000) :: uint32)
    = a * 2 ^ 32 div 1000000000"
proof -
  have a: "uint (word_of_int a :: uint64) = a"
    using assms by (simp add: unsigned_of_int take_bit_int_eq_self Second_def)
  have m: "uint ((word_of_int a :: uint64) * 2 ^ 32) = a * 2 ^ 32"
    using assms by (simp add: uint_word_ariths a Second_def)
  have d: "uint (((word_of_int a :: uint64) * 2 ^ 32) div 1000000000) = a * 2 ^ 32 div 1000000000"
    using m by (simp add: uint_div)
  have "a * 2 ^ 32 div 1000000000 < 2 ^ 32" "0 \<le> a * 2 ^ 32 div 1000000000"
    using assms by (simp_all add: Second_def pos_imp_zdiv_nonneg_iff)
  then have "take_bit 32 (a * 2 ^ 32 div 1000000000) = a * 2 ^ 32 div 1000000000"
    by (simp add: take_bit_int_eq_self)
  moreover have "uint (ucast w :: uint32) = take_bit 32 (uint w)" for w :: uint64
    by (simp add: unsigned_ucast_eq)
  ultimately show ?thesis by (simp only: d)
qed

lemma frac_inj:
  fixes a b :: int
  assumes "a * 2 ^ 32 div 1000000000 = b * 2 ^ 32 div 1000000000"
  shows "a = b"
proof -
  define q where "q = a * 2 ^ 32 div 1000000000"
  have bounds: "1000000000 * (x * 2 ^ 32 div 1000000000) \<le> x * 2 ^ 32" "x * 2 ^ 32 < 1000000000 * (x * 2 ^ 32 div 1000000000) + 1000000000" for x :: int
    using mult_div_mod_eq [of 1000000000 "x * 2 ^ 32"] pos_mod_bound [of 1000000000 "x * 2 ^ 32"] pos_mod_sign [of 1000000000 "x * 2 ^ 32"]
    by linarith+
  have le: "x \<le> y" if "x * 2 ^ 32 div 1000000000 = q" "y * 2 ^ 32 div 1000000000 = q" for x y :: int
  proof (rule ccontr)
    assume "\<not> x \<le> y"
    then have "y * 2 ^ 32 + 2 ^ 32 \<le> x * 2 ^ 32" by simp
    with bounds [of x] bounds [of y] that show False by simp
  qed
  from le [of a b] le [of b a] assms show ?thesis by (simp add: q_def)
qed

lemma ParseOffsetInfo_total:
  "174 \<le> length b \<Longrightarrow> \<exists>i. ParseOffsetInfo b = Ok (Some i)"
  by (simp add: ParseOffsetInfo_def slice_def get_le64_val)

section \<open>Properties\<close>

text \<open>
  C8 (\<open>reply_decode_total\<close>). Decoding a received reply is total and canonical: any byte string is
  either refused with \<open>errInvalidPacket\<close> or accepted as a well-formed packet whose marshalling is
  that very byte string. In particular no datagram makes the decoder panic, and no two datagrams
  decode to the same packet.
\<close>

theorem reply_decode_total:
  "UnmarshalReplyPacket b = Err errInvalidPacket \<or>
   (\<exists>r. UnmarshalReplyPacket b = Ok r \<and> wf_reply r \<and> length b \<le> MaxReplyPacketSize
     \<and> ReplyPacket_Marshal r (zeros (length b)) = Ok (length b, b))"
proof (cases b rule: UnmarshalReplyPacket_cases)
  case (accept n)
  then obtain r where r: "UnmarshalReplyPacket b = Ok r" "wf_reply r" "reply_bytes r = b"
    using UnmarshalReplyPacket_accepts by blast
  from r have "ReplyPacket_Size r = length b"
    using length_reply_bytes by metis
  with r have "ReplyPacket_Marshal r (zeros (length b)) = Ok (length b, b)"
    by (simp add: ReplyPacket_Marshal_eq)
  with r accept show ?thesis by auto
qed simp

text \<open>
  C28 (\<open>reply_roundtrip\<close>). Marshalling a well-formed reply into a buffer that is large enough
  succeeds, writes exactly its wire size, leaves the rest of the buffer alone, and the written
  bytes decode to the same packet; a buffer that is too small is refused with its sizes.
\<close>

theorem reply_roundtrip:
  assumes "wf_reply r"
  shows "(ReplyPacket_Size r \<le> length buf \<longrightarrow>
      (\<exists>buf'. ReplyPacket_Marshal r buf = Ok (ReplyPacket_Size r, buf') \<and> length buf' = length buf
        \<and> drop (ReplyPacket_Size r) buf' = drop (ReplyPacket_Size r) buf
        \<and> UnmarshalReplyPacket (take (ReplyPacket_Size r) buf') = Ok r))
    \<and> (length buf < ReplyPacket_Size r \<longrightarrow>
      ReplyPacket_Marshal r buf = Err (BufferTooSmall (length buf) (ReplyPacket_Size r)))"
  using assms
  by (auto simp: ReplyPacket_Marshal_eq length_reply_bytes reply_wire.dec_enc)
    (simp add: ReplyPacket_Marshal_def)

definition sample_probe :: ProbePacket where
  "sample_probe = \<lparr>Seq = 7, Sec = 1, Frac = 2, SenderPubkey = zeros 32, ProbeSignature = zeros 64\<rparr>"

definition sample_reply :: ReplyPacket where
  "sample_reply = \<lparr>Probe = sample_probe, AuthorityPubkey = zeros 32, GeoprobePubkey = zeros 32,
     MeasurementSlot = 5, Lat = 0, Lng = 0, SinceLastRxNs = 9, RttNs = 9, Offsets = [zeros 174],
     Challenged = True, Signature = zeros 64\<rparr>"

lemma wf_sample_probe [simp]: "wf_probe sample_probe"
  by (simp add: wf_probe_def sample_probe_def)

lemma wf_sample_reply [simp]: "wf_reply sample_reply"
  by (simp add: wf_reply_def wf_offsets_def sample_reply_def)

lemma size_sample_reply [simp]: "ReplyPacket_Size sample_reply = 451"
  by (simp add: ReplyPacket_Size_def sample_reply_def)

theorem reply_roundtrip_witness:
  "wf_reply sample_reply \<and> (\<exists>buf'. ReplyPacket_Marshal sample_reply (zeros 1147) = Ok (451, buf')
     \<and> UnmarshalReplyPacket (take 451 buf') = Ok sample_reply)"
  using reply_roundtrip [OF wf_sample_reply, of "zeros 1147"] by auto

text \<open>
  Probes: the buffer returned by \<open>Marshal\<close> starts with 108 bytes that
  decode to the probe, and \<open>UnmarshalProbePacket\<close> accepts every string of 108 bytes as the one
  well-formed probe that marshals to it, and nothing else.
\<close>

theorem probe_roundtrip:
  "(wf_probe p \<and> 108 \<le> length buf \<longrightarrow>
      (\<exists>buf'. ProbePacket_Marshal p buf = Ok buf' \<and> drop 108 buf' = drop 108 buf
         \<and> UnmarshalProbePacket (take 108 buf') = Ok p))
   \<and> (length b = 108 \<longrightarrow> (\<exists>q. UnmarshalProbePacket b = Ok q \<and> wf_probe q
         \<and> ProbePacket_Marshal q (zeros 108) = Ok b))
   \<and> (length b \<noteq> 108 \<longrightarrow> UnmarshalProbePacket b = Err errInvalidPacket)"
  using UnmarshalProbePacket_total [of b]
  by (auto simp: ProbePacket_Marshal_eq length_probe_bytes probe_wire.dec_enc
      UnmarshalProbePacket_Err)

theorem probe_roundtrip_witness:
  "wf_probe sample_probe \<and> (\<exists>buf'. ProbePacket_Marshal sample_probe (zeros 120) = Ok buf'
     \<and> UnmarshalProbePacket (take 108 buf') = Ok sample_probe)"
  using probe_roundtrip [of sample_probe "zeros 120" "[]"] by auto

text \<open>
  C9 (\<open>reply_verify_received_bytes\<close>). The signature check of a decoded reply is a check of the bytes
  that were received: the key is bytes 108 to 139, the message everything before the last 64
  bytes, the signature those 64 bytes. Nothing is lost or added between the wire and the check.
\<close>

theorem reply_verify_received_bytes:
  assumes "UnmarshalReplyPacket b = Ok r"
  shows "ReplyPacket_Verify c r =
    ed_Verify c (take 32 (drop 108 b)) (take (length b - 64) b) (drop (length b - 64) b)"
proof -
  have wf: "wf_reply r" and b: "b = reply_payload r @ Signature r"
    using assms reply_wire.dec_wf reply_wire.enc_dec reply_bytes_def by metis+
  have len: "length (probe_bytes (Probe r)) = 108" "length (Signature r) = 64" "length (AuthorityPubkey r) = 32"
    using wf by (auto simp: wf_reply_def length_probe_bytes)
  then have "take 32 (drop 108 b) = AuthorityPubkey r"
    by (simp add: b reply_payload_def)
  with len show ?thesis
    by (simp add: ReplyPacket_Verify_eq [OF wf] b)
qed

theorem reply_verify_received_bytes_witness:
  "ReplyPacket_Verify \<lparr>ed_NewKeyFromSeed = id, ed_Sign = (\<lambda>k m. zeros 64), ed_Verify = (\<lambda>pk m sg. length m = 387)\<rparr>
     sample_reply"
proof -
  have d: "UnmarshalReplyPacket (reply_bytes sample_reply) = Ok sample_reply"
    by (simp add: reply_wire.dec_enc)
  have "length (reply_bytes sample_reply) = 451"
    by (simp add: length_reply_bytes)
  then show ?thesis
    using reply_verify_received_bytes [OF d] by simp
qed

text \<open>
  Building a reply: more than five offsets or a blob that is not 174
  bytes long are refused (the first offending blob is reported); otherwise the reply carries
  exactly the given fields, names the signer as its authority and passes its signature check.
\<close>

theorem NewReplyPacket_spec:
  assumes "signer_ok c s" "wf_probe p" "length g = 32"
  shows "(if length os > MaxOffsets
       then NewReplyPacket c p s g os slot lat lng since rtt ch = Err (TooManyOffsets (length os) 5)
     else if \<exists>b \<in> set os. length b \<noteq> LocationOffsetSize
       then \<exists>j<length os. length (os ! j) \<noteq> 174 \<and> (\<forall>l<j. length (os ! l) = 174) \<and>
         NewReplyPacket c p s g os slot lat lng since rtt ch = Err (OffsetWrongSize j (length (os ! j)) 174)
     else \<exists>r. NewReplyPacket c p s g os slot lat lng since rtt ch = Ok r \<and> wf_reply r
         \<and> r = \<lparr>Probe = p, AuthorityPubkey = drop 32 (key s), GeoprobePubkey = g,
             MeasurementSlot = slot, Lat = lat, Lng = lng, SinceLastRxNs = since, RttNs = rtt,
             Offsets = os, Challenged = ch, Signature = Signature r\<rparr>
         \<and> ReplyPacket_Verify c r)"
proof (cases "length os > MaxOffsets")
  case True
  then show ?thesis by (simp add: NewReplyPacket_def)
next
  case False
  show ?thesis
  proof (cases "\<exists>b \<in> set os. length b \<noteq> LocationOffsetSize")
    case True
    from check_offset_sizes_Err [OF True, of 0] obtain j where
      "j < length os" "length (os ! j) \<noteq> 174" "\<forall>l<j. length (os ! l) = 174"
      "check_offset_sizes 0 os = Err (OffsetWrongSize j (length (os ! j)) 174)" by auto
    with False have "NewReplyPacket c p s g os slot lat lng since rtt ch
        = Err (OffsetWrongSize j (length (os ! j)) 174)"
      by (simp add: NewReplyPacket_def)
    with True False \<open>j < length os\<close> \<open>length (os ! j) \<noteq> 174\<close> \<open>\<forall>l<j. length (os ! l) = 174\<close>
    show ?thesis by auto
  next
    case ok: False
    with False have "wf_offsets os" by (auto simp: wf_offsets_def)
    from NewReplyPacket_ok [OF assms this] ok False show ?thesis by auto
  qed
qed

theorem NewReplyPacket_spec_witness:
  "signer_ok toy_ed25519 toy_signer \<and>
   (\<exists>r. NewReplyPacket toy_ed25519 sample_probe toy_signer (zeros 32) [zeros 174] 1 2 3 4 5 True = Ok r
     \<and> ReplyPacket_Verify toy_ed25519 r)"
proof -
  have "length (zeros 32) = 32" by simp
  from NewReplyPacket_spec [OF toy_signer_ok wf_sample_probe this, of "[zeros 174]" 1 2 3 4 5 True]
  show ?thesis by (auto simp: toy_signer_ok)
qed

text \<open>
  The probe a challenged sender builds carries the nonce in
  its two timestamp fields so that the reflector, which joins the upper and the lower half again,
  reads back exactly the nonce; and the probe passes its own signature check.
\<close>

theorem challenged_probe_echoes_nonce:
  assumes "signer_ok c s"
  shows "\<exists>p. newChallengedProbePacket c sq s nonce = Ok p \<and> wf_probe p \<and> Seq p = sq
    \<and> presentedNonce p = nonce \<and> SenderPubkey p = drop 32 (key s) \<and> ProbePacket_Verify c p"
  using newChallengedProbePacket_ok [OF assms, of sq nonce] nonce_split [of nonce]
  by (auto simp: presentedNonce_def)

theorem challenged_probe_echoes_nonce_witness:
  "\<exists>p. newChallengedProbePacket toy_ed25519 3 toy_signer 0x1122334455667788 = Ok p
    \<and> presentedNonce p = 0x1122334455667788"
  using challenged_probe_echoes_nonce [OF toy_signer_ok, of 3 "0x1122334455667788"] by auto

text \<open>
  Two instants with the same NTP timestamp agree to the nanosecond
  within the second and differ by a multiple of \<open>2 ^ 32\<close> seconds: the fraction loses nothing, so
  within one NTP era the echoed timestamp identifies the instant a probe was built.
\<close>

theorem ntpTimestamp_injective:
  assumes "ntpTimestamp t = ntpTimestamp u"
  shows "wall t mod Second = wall u mod Second \<and> (wall t div Second - wall u div Second) mod 2 ^ 32 = 0"
proof -
  have S: "0 \<le> wall x mod Second" "wall x mod Second < Second" for x :: gotime
    by (simp_all add: Second_def)
  from assms have "(word_of_int (wall t div Second) :: uint32) = word_of_int (wall u div Second)"
    and fr: "(ucast (((word_of_int (wall t mod Second) :: uint64) * 2 ^ 32) div 1000000000) :: uint32)
       = ucast (((word_of_int (wall u mod Second) :: uint64) * 2 ^ 32) div 1000000000)"
    by (simp_all only: ntpTimestamp_def Let_def prod.inject add_right_cancel)
  then have "(wall t div Second - wall u div Second) mod 2 ^ 32 = 0"
    by (simp add: word_of_int_eq_iff take_bit_eq_mod mod_eq_dvd_iff flip: dvd_eq_mod_eq_0)
  moreover from fr have "wall t mod Second = wall u mod Second"
    using uint_frac [OF S, of t] uint_frac [OF S, of u] frac_inj by metis
  ultimately show ?thesis by simp
qed

theorem ntpTimestamp_injective_witness:
  "ntpTimestamp \<lparr>wall = 5, mono = None\<rparr> = ntpTimestamp \<lparr>wall = 5, mono = Some 3\<rparr>
   \<and> (5 :: int) mod Second = 5 mod Second"
proof -
  have "ntpTimestamp \<lparr>wall = 5, mono = None\<rparr> = ntpTimestamp \<lparr>wall = 5, mono = Some 3\<rparr>"
    by (simp add: ntpTimestamp_def)
  from this ntpTimestamp_injective [OF this] show ?thesis by simp
qed

end
