(* ===== verification/Kernel_Time.thy ===== *)
theory Kernel_Time
  imports Go_Prelude
begin

text \<open>
  Kernel receive timestamps. Both ends read the ancillary data that \<open>recvmsg\<close> returns with a
  datagram: \<open>syscall.ParseSocketControlMessage\<close> (on 64-bit little-endian Linux) cuts it into
  control messages, and the first \<open>SO_TIMESTAMPNS\<close> message holds a \<open>Timespec\<close>. Sources:
  \<open>kernelTimestamp\<close> in \<open>internal/signed/reflector_linux.go\<close> and the reads in
  \<open>internal/signed/sender_linux.go\<close>.
\<close>

section \<open>Control messages\<close>

record cmsg =
  cm_Level :: "32 word"
  cm_Type :: "32 word"
  cm_Data :: bytes

definition SOL_SOCKET :: "32 word" where "SOL_SOCKET = 1"
definition SO_TIMESTAMPNS :: "32 word" where "SO_TIMESTAMPNS = 35"
definition SizeofCmsghdr :: nat where "SizeofCmsghdr = 16"
definition SizeofTimespec :: nat where "SizeofTimespec = 16"

definition cmsgAlignOf :: "nat \<Rightarrow> nat" where
  "cmsgAlignOf n = ((n + 7) div 8) * 8"

text \<open>
  The header is a 64-bit length (of header and data), a 32-bit level and a 32-bit type. A length
  below the header size or beyond the buffer is \<open>EINVAL\<close>, the value \<open>None\<close> here.
\<close>

function ParseSocketControlMessage :: "bytes \<Rightarrow> cmsg list option" where
  "ParseSocketControlMessage b =
     (if length b < SizeofCmsghdr then Some []
      else
      let len = unat (of_le (take 8 b) :: uint64) in
      if len < SizeofCmsghdr \<or> len > length b then None
      else
      case ParseSocketControlMessage (drop (cmsgAlignOf len) b) of
        None \<Rightarrow> None
      | Some ms \<Rightarrow> Some (\<lparr>cm_Level = of_le (take 4 (drop 8 b)), cm_Type = of_le (take 4 (drop 12 b)),
                          cm_Data = take (len - 16) (drop 16 b)\<rparr> # ms))"
  by pat_completeness auto
termination
  by (relation "measure length") (auto simp: SizeofCmsghdr_def cmsgAlignOf_def)

declare ParseSocketControlMessage.simps [simp del]

text \<open>\<open>Timespec\<close>: two 64-bit integers, read as signed.\<close>

definition timespec_time :: "bytes \<Rightarrow> gotime" where
  "timespec_time d = time_Unix (sint (of_le (take 8 d) :: uint64)) (sint (of_le (take 8 (drop 8 d)) :: uint64))"

text \<open>The loop over the control messages: the first timestamp message that is long enough.\<close>

fun find_timestamp :: "cmsg list \<Rightarrow> gotime option" where
  "find_timestamp [] = None"
| "find_timestamp (m # ms) =
     (if cm_Level m = SOL_SOCKET \<and> cm_Type m = SO_TIMESTAMPNS \<and> length (cm_Data m) \<ge> SizeofTimespec
      then Some (timespec_time (cm_Data m))
      else find_timestamp ms)"

text \<open>\<open>kernelTimestamp\<close>: the kernel's receive time, or \<open>time.Now()\<close> when there is none.\<close>

definition kernelTimestamp :: "bytes \<Rightarrow> gotime \<Rightarrow> gotime" where
  "kernelTimestamp oob now =
     (case ParseSocketControlMessage oob of
        None \<Rightarrow> now
      | Some cmsgs \<Rightarrow> (case find_timestamp cmsgs of None \<Rightarrow> now | Some t \<Rightarrow> t))"

text \<open>The message the kernel attaches for a receive time of \<open>sec\<close> seconds and \<open>nsec\<close> nanoseconds.\<close>

definition timestamp_cmsg :: "uint64 \<Rightarrow> uint64 \<Rightarrow> bytes" where
  "timestamp_cmsg sec nsec =
     le64 32 @ le_bytes 4 (1 :: 32 word) @ le_bytes 4 (35 :: 32 word) @ le64 sec @ le64 nsec"

lemma of_le_le64 [simp]: "of_le (le64 v) = v"
  by (simp add: le64_def of_le_le_bytes take_bit_word_eq_self)

lemma of_le_le_bytes4 [simp]: "of_le (le_bytes 4 v) = (v :: 32 word)"
  by (simp add: of_le_le_bytes take_bit_word_eq_self)

lemma parse_timestamp_cmsg:
  "ParseSocketControlMessage (timestamp_cmsg sec nsec)
    = Some [\<lparr>cm_Level = 1, cm_Type = 35, cm_Data = le64 sec @ le64 nsec\<rparr>]"
proof -
  have nil: "ParseSocketControlMessage [] = Some []"
    by (simp add: ParseSocketControlMessage.simps [of "[]"] SizeofCmsghdr_def)
  show ?thesis
    by (subst ParseSocketControlMessage.simps)
      (simp add: timestamp_cmsg_def SizeofCmsghdr_def cmsgAlignOf_def Let_def nil)
qed

lemma find_timestamp_cmsg:
  "find_timestamp [\<lparr>cm_Level = 1, cm_Type = 35, cm_Data = le64 sec @ le64 nsec\<rparr>] = Some (time_Unix (sint sec) (sint nsec))"
  by (simp add: SOL_SOCKET_def SO_TIMESTAMPNS_def SizeofTimespec_def timespec_time_def)

lemma kernelTimestamp_cmsg:
  "kernelTimestamp (timestamp_cmsg sec nsec) now = time_Unix (sint sec) (sint nsec)"
  by (simp add: kernelTimestamp_def parse_timestamp_cmsg find_timestamp_cmsg del: find_timestamp.simps)

lemma kernelTimestamp_none: "kernelTimestamp [] now = now"
  by (simp add: kernelTimestamp_def ParseSocketControlMessage.simps [of "[]"] SizeofCmsghdr_def)

section \<open>System calls\<close>

text \<open>The error numbers that the loops of the reflector and the sender distinguish.\<close>

datatype errno = EAGAIN | EWOULDBLOCK | EINTR | Errno nat

text \<open>\<open>int(time.Until(deadline).Milliseconds())\<close>: division towards zero.\<close>

definition remaining_ms :: "gotime \<Rightarrow> gotime \<Rightarrow> int" where
  "remaining_ms deadline now =
     (let d = sint (Sub deadline now) in if d < 0 then - ((- d) div 1000000) else d div 1000000)"

end
