(* ===== verification/Reflector.thy ===== *)
theory Reflector
  imports Packet Kernel_Time
begin

text \<open>
  The anchor's reflector (\<open>internal/signed/reflector_linux.go\<close>, \<open>reflector.go\<close>). \<open>handle\<close> is the body
  of the receive loop of \<open>Run\<close>: one datagram, with what the environment supplies for it (clock
  readings, random bytes, the kernel's ancillary data). \<open>recv_loop\<close> and \<open>Run\<close> are the loops around
  it. \<open>SetAuthorizedKeys\<close> and \<open>SetOffsets\<close>, called from other goroutines, are operations on the
  same state; a run interleaves them with datagrams, each handled as a whole.
\<close>

section \<open>State\<close>

record senderState =
  lastTxTime :: gotime
  pairCount :: nat
  pairStart :: gotime
  pairSourceIP :: bytes
  nonce :: uint64

definition new_senderState :: senderState where
  "new_senderState = \<lparr>lastTxTime = zero_time, pairCount = 0, pairStart = zero_time,
     pairSourceIP = zeros 4, nonce = 0\<rparr>"

text \<open>
  The two \<open>sync.Map\<close>s are maps from public keys; of the channels \<open>shutdown\<close> and \<open>closed\<close> only
  whether they have been closed matters.
\<close>

record LinuxReflector =
  fd :: nat
  epfd :: nat
  port :: "16 word"
  timeout :: duration
  verifyInterval :: duration
  rsigner :: Ed25519Signer
  geoprobePubkey :: bytes
  authorizedKeys :: "bytes \<rightharpoonup> unit"
  senderStates :: "bytes \<rightharpoonup> senderState"
  offsets :: "bytes list"
  shutdown :: bool
  closed :: bool

definition defaultReadTimeout :: duration where "defaultReadTimeout = 1000000000"
definition stalePairTimeout :: duration where "stalePairTimeout = 5000000000"

section \<open>Configuration\<close>

text \<open>\<open>Store\<close> of every key of a list into the allowlist.\<close>

fun store_keys :: "bytes list \<Rightarrow> (bytes \<rightharpoonup> unit) \<Rightarrow> (bytes \<rightharpoonup> unit)" where
  "store_keys [] m = m"
| "store_keys (k # ks) m = store_keys ks (m(k \<mapsto> ()))"

text \<open>
  \<open>SetAuthorizedKeys\<close>: every stored key that is not in the new list is deleted, with its sender
  state; then all keys of the list are stored.
\<close>

definition SetAuthorizedKeys :: "bytes list \<Rightarrow> LinuxReflector \<Rightarrow> LinuxReflector" where
  "SetAuthorizedKeys keys r =
     (let newKeys = store_keys keys Map.empty;
          gone = (\<lambda>k. authorizedKeys r k \<noteq> None \<and> newKeys k = None)
      in r\<lparr>authorizedKeys := store_keys keys (\<lambda>k. if gone k then None else authorizedKeys r k),
           senderStates := (\<lambda>k. if gone k then None else senderStates r k)\<rparr>)"

text \<open>\<open>SetOffsets\<close> stores a copy of the blobs.\<close>

definition SetOffsets :: "bytes list \<Rightarrow> LinuxReflector \<Rightarrow> LinuxReflector" where
  "SetOffsets os r = r\<lparr>offsets := map (\<lambda>blob. go_copy (zeros (length blob)) blob) os\<rparr>"

definition Port :: "LinuxReflector \<Rightarrow> 16 word" where
  "Port r = port r"

section \<open>One datagram\<close>

datatype sockaddr = SockaddrInet4 nat bytes | SockaddrOther

text \<open>
  A received datagram and the environment's answers while it is handled: the address it came from,
  the ancillary data, \<open>time.Now()\<close> as the fallback receive time and just before \<open>Sendto\<close>, and the
  outcome of \<open>rand.Read\<close> (\<open>None\<close> for an error).
\<close>

record datagram =
  dg_data :: bytes
  dg_oob :: bytes
  dg_from :: sockaddr
  dg_now_rx :: gotime
  dg_random :: "bytes option"
  dg_now_tx :: gotime

definition randomNonce :: "bytes option \<Rightarrow> uint64" where
  "randomNonce rnd = (case rnd of None \<Rightarrow> 0 | Some b \<Rightarrow> of_le (rev (take 8 b)))"

text \<open>Why a datagram is dropped: one constructor for each \<open>continue\<close> of the loop.\<close>

datatype drop_reason =
    NotProbeSize
  | Undecodable packet_error
  | Unauthorized
  | RateLimited
  | NotIPv4
  | SourceMismatch
  | ReplyFailed packet_error

datatype outcome = Drop drop_reason | Sent bytes sockaddr | Crash

definition put_state :: "bytes \<Rightarrow> senderState \<Rightarrow> LinuxReflector \<Rightarrow> LinuxReflector" where
  "put_state k st r = r\<lparr>senderStates := (senderStates r)(k \<mapsto> st)\<rparr>"

text \<open>Pair-based rate limiting: whether the probe is dropped, and the reset when it is not.\<close>

definition rate_limited :: "LinuxReflector \<Rightarrow> gotime \<Rightarrow> senderState \<Rightarrow> bool" where
  "rate_limited r now st \<longleftrightarrow> sint (verifyInterval r) > 0 \<and> pairCount st \<ge> 2
     \<and> sint (Sub now (pairStart st)) < sint (verifyInterval r)"

definition window_reset :: "LinuxReflector \<Rightarrow> senderState \<Rightarrow> senderState" where
  "window_reset r st =
     (if sint (verifyInterval r) > 0 \<and> pairCount st \<ge> 2 then st\<lparr>pairCount := 0, nonce := 0\<rparr> else st)"

text \<open>If probe 1 never arrived, the next probe starts a fresh pair.\<close>

definition stale_reset :: "gotime \<Rightarrow> senderState \<Rightarrow> senderState" where
  "stale_reset now st =
     (if pairCount st = 1 \<and> \<not> IsZero (lastTxTime st)
         \<and> sint (Sub now (lastTxTime st)) > sint stalePairTimeout
      then st\<lparr>pairCount := 0, nonce := 0\<rparr> else st)"

text \<open>
  Probe 0 draws the nonce and puts it into \<open>sinceLastRxNs\<close>; probe 1 checks the echoed nonce, ends
  the pair and measures the time since the last reply. The result is the new state, the value for
  \<open>sinceLastRxNs\<close> and the challenged flag.
\<close>

definition pair_step ::
    "gotime \<Rightarrow> bytes option \<Rightarrow> ProbePacket \<Rightarrow> senderState \<Rightarrow> senderState \<times> uint64 \<times> bool" where
  "pair_step now rnd probe st =
     (if pairCount st = 0 then
        let n = randomNonce rnd in
        (st\<lparr>pairStart := now, nonce := n, pairCount := Suc (pairCount st)\<rparr>, n, False)
      else
        let challenged = (nonce st \<noteq> 0 \<and> presentedNonce probe = nonce st);
            sinceLastRxNs = (if \<not> IsZero (lastTxTime st) then Sub now (lastTxTime st) else 0)
        in (st\<lparr>nonce := 0, pairCount := Suc (pairCount st)\<rparr>, sinceLastRxNs, challenged))"

text \<open>Location data from the first reference offset: slot, latitude, longitude and RTT.\<close>

definition location_data :: "bytes list \<Rightarrow> (packet_error, uint64 \<times> float64 \<times> float64 \<times> uint64) result" where
  "location_data currentOffsets =
     (case currentOffsets of
        [] \<Rightarrow> Ok (0, 0, 0, 0)
      | blob # _ \<Rightarrow> bind_r (ParseOffsetInfo blob) (\<lambda>info.
          case info of None \<Rightarrow> Ok (0, 0, 0, 0)
          | Some i \<Rightarrow> Ok (OI_MeasurementSlot i, OI_Lat i, OI_Lng i, OI_RttNs i)))"

text \<open>The reply to an accepted probe, and the bytes that are sent.\<close>

definition build_reply ::
    "ed25519 \<Rightarrow> LinuxReflector \<Rightarrow> ProbePacket \<Rightarrow> bool \<Rightarrow> uint64 \<Rightarrow> bool \<Rightarrow> (packet_error, bytes) result" where
  "build_reply c r probe isProbe0 sinceLastRxNs challenged =
     bind_r (location_data (offsets r)) (\<lambda>(slot, lat, lng, dzdRttNs).
     let rttNs = (if isProbe0 then dzdRttNs else dzdRttNs + sinceLastRxNs) in
     bind_r (NewReplyPacket c probe (rsigner r) (geoprobePubkey r) (offsets r) slot lat lng
       sinceLastRxNs rttNs challenged) (\<lambda>reply.
     case ReplyPacket_Marshal reply (zeros MaxReplyPacketSize) of
       Ok (replyLen, replyBuf) \<Rightarrow> Ok (take replyLen replyBuf)
     | Err _ \<Rightarrow> Ok []
     | Panic \<Rightarrow> Panic))"

text \<open>From the source-address check to the transmission, for a sender state that may proceed.\<close>

definition serve ::
    "ed25519 \<Rightarrow> datagram \<Rightarrow> gotime \<Rightarrow> ProbePacket \<Rightarrow> senderState \<Rightarrow> LinuxReflector \<Rightarrow>
     LinuxReflector \<times> outcome" where
  "serve c d now probe st r =
     (let k = SenderPubkey probe in
      case dg_from d of
        SockaddrOther \<Rightarrow> (put_state k st r, Drop NotIPv4)
      | SockaddrInet4 _ addr \<Rightarrow>
          if pairCount st \<noteq> 0 \<and> addr \<noteq> pairSourceIP st then (put_state k st r, Drop SourceMismatch)
          else
          let st = (if pairCount st = 0 then st\<lparr>pairSourceIP := addr\<rparr> else st);
              isProbe0 = (pairCount st = 0);
              (st, sinceLastRxNs, challenged) = pair_step now (dg_random d) probe st
          in
          (case build_reply c r probe isProbe0 sinceLastRxNs challenged of
             Panic \<Rightarrow> (put_state k st r, Crash)
           | Err e \<Rightarrow> (put_state k st r, Drop (ReplyFailed e))
           | Ok bytes \<Rightarrow> (put_state k (st\<lparr>lastTxTime := dg_now_tx d\<rparr>) r, Sent bytes (dg_from d))))"

definition handle :: "ed25519 \<Rightarrow> datagram \<Rightarrow> LinuxReflector \<Rightarrow> LinuxReflector \<times> outcome" where
  "handle c d r =
     (if length (dg_data d) \<noteq> ProbePacketSize then (r, Drop NotProbeSize)
      else case UnmarshalProbePacket (dg_data d) of
        Panic \<Rightarrow> (r, Crash)
      | Err e \<Rightarrow> (r, Drop (Undecodable e))
      | Ok probe \<Rightarrow>
          let k = SenderPubkey probe in
          if authorizedKeys r k = None then (r, Drop Unauthorized)
          else
          let now = kernelTimestamp (dg_oob d) (dg_now_rx d);
              st = (case senderStates r k of None \<Rightarrow> new_senderState | Some st \<Rightarrow> st)
          in
          if rate_limited r now st then (put_state k st r, Drop RateLimited)
          else serve c d now probe (stale_reset now (window_reset r st)) r)"

section \<open>The loops\<close>

datatype recv_result = RecvErr errno | Recv datagram

datatype run_error = DeadlineExceeded | EpollWaitError errno | RecvmsgError errno

text \<open>
  The environment of a run is a script: what the calls of each iteration return. A script that
  ends leaves the loop running; the result of every finite prefix of an execution is defined this
  way.
\<close>

datatype loop_end = Continue | Returned "run_error option" | Crashed

fun recv_loop :: "ed25519 \<Rightarrow> recv_result list \<Rightarrow> LinuxReflector \<Rightarrow>
    LinuxReflector \<times> outcome list \<times> loop_end" where
  "recv_loop c [] r = (r, [], Continue)"
| "recv_loop c (RecvErr e # rs) r =
     (if e = EAGAIN \<or> e = EWOULDBLOCK then (r, [], Continue)
      else (r, [], Returned (Some (RecvmsgError e))))"
| "recv_loop c (Recv d # rs) r =
     (case handle c d r of
        (r', Crash) \<Rightarrow> (r', [Crash], Crashed)
      | (r', out) \<Rightarrow>
          (case recv_loop c rs r' of (r'', outs, e) \<Rightarrow> (r'', out # outs, e)))"

text \<open>One iteration of the outer loop: the select, the deadline, \<open>epoll_wait\<close>, the datagrams.\<close>

record iteration =
  it_ctx_done :: bool
  it_shutdown :: bool
  it_deadline :: "gotime option"
  it_now :: gotime
  it_until_now :: gotime
  it_epoll :: "int \<times> errno option"
  it_recv :: "recv_result list"

definition run_iteration :: "ed25519 \<Rightarrow> iteration \<Rightarrow> LinuxReflector \<Rightarrow>
    LinuxReflector \<times> outcome list \<times> loop_end" where
  "run_iteration c it r =
     (if it_ctx_done it then (r, [], Returned None)
      else if it_shutdown it then (r, [], Returned None)
      else
      let deadline = (case it_deadline it of Some d \<Rightarrow> d | None \<Rightarrow> Add (it_now it) defaultReadTimeout) in
      if remaining_ms deadline (it_until_now it) \<le> 0 then (r, [], Returned (Some DeadlineExceeded))
      else case it_epoll it of (n, err) \<Rightarrow>
        if err \<noteq> None \<and> err \<noteq> Some EINTR then (r, [], Returned (Some (EpollWaitError (the err))))
        else if n = 0 then (r, [], Continue)
        else recv_loop c (it_recv it) r)"

text \<open>\<open>Run\<close>: when the loop returns, the deferred calls close the sockets and \<open>closed\<close>.\<close>

fun Run :: "ed25519 \<Rightarrow> iteration list \<Rightarrow> LinuxReflector \<Rightarrow>
    LinuxReflector \<times> outcome list \<times> loop_end" where
  "Run c [] r = (r, [], Continue)"
| "Run c (it # its) r =
     (case run_iteration c it r of
        (r', outs, Continue) \<Rightarrow>
          (case Run c its r' of (r'', outs', e) \<Rightarrow> (r'', outs @ outs', e))
      | (r', outs, Returned err) \<Rightarrow> (r'\<lparr>closed := True\<rparr>, outs, Returned err)
      | (r', outs, Crashed) \<Rightarrow> (r', outs, Crashed))"

text \<open>
  \<open>Close\<close>: returns at once when \<open>Run\<close> has ended; otherwise closes \<open>shutdown\<close> (a second time is a
  panic) and waits for \<open>Run\<close> to end.
\<close>

datatype close_result = CloseReturns | CloseWaits | ClosePanics

definition Close :: "LinuxReflector \<Rightarrow> LinuxReflector \<times> close_result" where
  "Close r = (if closed r then (r, CloseReturns)
     else if shutdown r then (r, ClosePanics)
     else (r\<lparr>shutdown := True\<rparr>, CloseWaits))"

section \<open>Construction\<close>

text \<open>
  \<open>NewLinuxReflector\<close>: each system call may fail; the descriptors opened so far are closed again.
  The environment says what each call returns; the result carries the list of descriptors that
  are still open.
\<close>

datatype new_error = ResolveAddr | SocketErr errno | BindErr errno | GetsocknameErr errno
  | EpollCreateErr errno | EpollCtlErr errno | TimestampErr errno

record socket_env =
  se_resolve :: "nat option"
  se_socket :: "errno + nat"
  se_bind :: "errno option"
  se_getsockname :: "errno + nat"
  se_epoll_create :: "errno + nat"
  se_epoll_ctl :: "errno option"
  se_timestampns :: "errno option"

definition NewLinuxReflector ::
    "socket_env \<Rightarrow> duration \<Rightarrow> Ed25519Signer \<Rightarrow> bytes \<Rightarrow> bytes list \<Rightarrow> duration \<Rightarrow>
     (new_error + LinuxReflector) \<times> nat set" where
  "NewLinuxReflector env tmo sgnr geoprobe keys interval =
     (case se_resolve env of
        None \<Rightarrow> (Inl ResolveAddr, {})
      | Some _ \<Rightarrow>
     (case se_socket env of
        Inl e \<Rightarrow> (Inl (SocketErr e), {})
      | Inr sock \<Rightarrow>
     let fds = {sock} in
     (case se_bind env of
        Some e \<Rightarrow> (Inl (BindErr e), fds - {sock})
      | None \<Rightarrow>
     (case se_getsockname env of
        Inl e \<Rightarrow> (Inl (GetsocknameErr e), fds - {sock})
      | Inr boundPort \<Rightarrow>
     (case se_epoll_create env of
        Inl e \<Rightarrow> (Inl (EpollCreateErr e), fds - {sock})
      | Inr ep \<Rightarrow>
     let fds = insert ep fds in
     (case se_epoll_ctl env of
        Some e \<Rightarrow> (Inl (EpollCtlErr e), fds - {sock} - {ep})
      | None \<Rightarrow>
     (case se_timestampns env of
        Some e \<Rightarrow> (Inl (TimestampErr e), fds - {sock} - {ep})
      | None \<Rightarrow>
     (Inr \<lparr>fd = sock, epfd = ep, port = word_of_nat boundPort, timeout = tmo, verifyInterval = interval, rsigner = sgnr,
           geoprobePubkey = geoprobe, authorizedKeys = store_keys keys Map.empty,
           senderStates = Map.empty, offsets = [], shutdown = False, closed = False\<rparr>, fds))))))))"

text \<open>\<open>NewReflector\<close>: on Linux, the constructor of the interface.\<close>

definition NewReflector ::
    "socket_env \<Rightarrow> duration \<Rightarrow> Ed25519Signer \<Rightarrow> bytes \<Rightarrow> bytes list \<Rightarrow> duration \<Rightarrow>
     (new_error + LinuxReflector) \<times> nat set" where
  "NewReflector = NewLinuxReflector"

section \<open>Runs with configuration changes\<close>

text \<open>What can happen to a reflector: a datagram, or one of the setters.\<close>

datatype event = Dg datagram | Reload "bytes list" | Refresh "bytes list"

definition apply_event :: "ed25519 \<Rightarrow> event \<Rightarrow> LinuxReflector \<Rightarrow> LinuxReflector" where
  "apply_event c e r = (case e of
      Dg d \<Rightarrow> fst (handle c d r)
    | Reload keys \<Rightarrow> SetAuthorizedKeys keys r
    | Refresh os \<Rightarrow> SetOffsets os r)"

fun exec :: "ed25519 \<Rightarrow> event list \<Rightarrow> LinuxReflector \<Rightarrow> LinuxReflector" where
  "exec c [] r = r"
| "exec c (e # es) r = exec c es (apply_event c e r)"

section \<open>Basic facts\<close>

lemma store_keys_dom: "store_keys ks m k \<noteq> None \<longleftrightarrow> k \<in> set ks \<or> m k \<noteq> None"
  by (induction ks arbitrary: m) auto

lemma put_state_sel [simp]:
  "senderStates (put_state k st r) = (senderStates r)(k \<mapsto> st)"
  "authorizedKeys (put_state k st r) = authorizedKeys r"
  "verifyInterval (put_state k st r) = verifyInterval r"
  "rsigner (put_state k st r) = rsigner r"
  "geoprobePubkey (put_state k st r) = geoprobePubkey r"
  "offsets (put_state k st r) = offsets r"
  "shutdown (put_state k st r) = shutdown r" "closed (put_state k st r) = closed r"
  by (simp_all add: put_state_def)

text \<open>The state of a key that the handler works on.\<close>

definition current_state :: "LinuxReflector \<Rightarrow> bytes \<Rightarrow> senderState" where
  "current_state r k = (case senderStates r k of None \<Rightarrow> new_senderState | Some st \<Rightarrow> st)"

text \<open>Every datagram is dropped without effect, rate limited, or served.\<close>

lemma handle_cases [consumes 1, case_names dropped limited served]:
  assumes "handle c d r = (r', out)"
  obtains "r' = r" "out = Drop NotProbeSize \<and> length (dg_data d) \<noteq> 108 \<or> out = Drop Unauthorized"
  | probe now where "UnmarshalProbePacket (dg_data d) = Ok probe" "wf_probe probe"
      "authorizedKeys r (SenderPubkey probe) \<noteq> None"
      "now = kernelTimestamp (dg_oob d) (dg_now_rx d)"
      "rate_limited r now (current_state r (SenderPubkey probe))"
      "r' = put_state (SenderPubkey probe) (current_state r (SenderPubkey probe)) r" "out = Drop RateLimited"
  | probe now where "UnmarshalProbePacket (dg_data d) = Ok probe" "wf_probe probe"
      "authorizedKeys r (SenderPubkey probe) \<noteq> None"
      "now = kernelTimestamp (dg_oob d) (dg_now_rx d)"
      "\<not> rate_limited r now (current_state r (SenderPubkey probe))"
      "serve c d now probe (stale_reset now (window_reset r (current_state r (SenderPubkey probe)))) r = (r', out)"
proof (cases "length (dg_data d) = 108")
  case False
  with assms that(1) show ?thesis by (simp add: handle_def)
next
  case True
  then obtain probe where p: "UnmarshalProbePacket (dg_data d) = Ok probe" "wf_probe probe"
    using UnmarshalProbePacket_total by blast
  let ?now = "kernelTimestamp (dg_oob d) (dg_now_rx d)"
  show ?thesis
  proof (cases "authorizedKeys r (SenderPubkey probe) = None")
    case un: True
    with assms p True that(1) show ?thesis by (simp add: handle_def)
  next
    case au: False
    show ?thesis
      using assms p True au that(2,3) [OF p au refl]
      by (auto simp: handle_def Let_def current_state_def [symmetric] split: if_splits)
  qed
qed

lemma pair_step_cases:
  assumes "pair_step now rnd probe st = (st', since, ch)"
  shows "pairCount st' = Suc (pairCount st) \<and> lastTxTime st' = lastTxTime st
      \<and> pairSourceIP st' = pairSourceIP st \<and>
    (if pairCount st = 0 then since = randomNonce rnd \<and> nonce st' = randomNonce rnd \<and> \<not> ch \<and> pairStart st' = now
     else nonce st' = 0 \<and> pairStart st' = pairStart st \<and> (ch \<longleftrightarrow> nonce st \<noteq> 0 \<and> presentedNonce probe = nonce st)
       \<and> since = (if IsZero (lastTxTime st) then 0 else Sub now (lastTxTime st)))"
  using assms by (auto simp: pair_step_def Let_def split: if_splits)

text \<open>What serving a probe does to the state, and what it sends.\<close>

lemma serve_cases [consumes 1, case_names refused stepped]:
  assumes "serve c d now probe st r = (r', out)"
  obtains "r' = put_state (SenderPubkey probe) st r"
      "out = Drop NotIPv4 \<and> dg_from d = SockaddrOther
       \<or> out = Drop SourceMismatch \<and> pairCount st \<noteq> 0 \<and> (\<exists>p a. dg_from d = SockaddrInet4 p a \<and> a \<noteq> pairSourceIP st)"
  | p addr st1 st2 since ch where "dg_from d = SockaddrInet4 p addr"
      "pairCount st \<noteq> 0 \<Longrightarrow> addr = pairSourceIP st"
      "st1 = st\<lparr>pairSourceIP := addr\<rparr>"
      "pair_step now (dg_random d) probe st1 = (st2, since, ch)"
      "build_reply c r probe (pairCount st = 0) since ch = Panic \<and> out = Crash
         \<and> r' = put_state (SenderPubkey probe) st2 r
       \<or> (\<exists>e. build_reply c r probe (pairCount st = 0) since ch = Err e \<and> out = Drop (ReplyFailed e)
         \<and> r' = put_state (SenderPubkey probe) st2 r)
       \<or> (\<exists>b. build_reply c r probe (pairCount st = 0) since ch = Ok b \<and> out = Sent b (dg_from d)
         \<and> r' = put_state (SenderPubkey probe) (st2\<lparr>lastTxTime := dg_now_tx d\<rparr>) r)"
proof (cases "dg_from d")
  case SockaddrOther
  with assms that(1) show ?thesis by (simp add: serve_def)
next
  case (SockaddrInet4 p addr)
  show ?thesis
  proof (cases "pairCount st \<noteq> 0 \<and> addr \<noteq> pairSourceIP st")
    case True
    with assms SockaddrInet4 that(1) show ?thesis by (simp add: serve_def Let_def)
  next
    case False
    obtain st2 since ch where ps: "pair_step now (dg_random d) probe (st\<lparr>pairSourceIP := addr\<rparr>) = (st2, since, ch)"
      using prod_cases3 by blast
    have eq: "serve c d now probe st r =
        (case build_reply c r probe (pairCount st = 0) since ch of
             Panic \<Rightarrow> (put_state (SenderPubkey probe) st2 r, Crash)
           | Err e \<Rightarrow> (put_state (SenderPubkey probe) st2 r, Drop (ReplyFailed e))
           | Ok bytes \<Rightarrow> (put_state (SenderPubkey probe) (st2\<lparr>lastTxTime := dg_now_tx d\<rparr>) r, Sent bytes (dg_from d)))"
    proof (cases "pairCount st = 0")
      case True
      with ps SockaddrInet4 show ?thesis by (simp add: serve_def Let_def)
    next
      case nz: False
      with False have a: "addr = pairSourceIP st" by simp
      have "st\<lparr>pairSourceIP := pairSourceIP st\<rparr> = st" by simp
      with ps SockaddrInet4 nz a show ?thesis by (simp add: serve_def Let_def)
    qed
    show ?thesis
    proof (rule that(2) [OF SockaddrInet4 _ refl ps])
      show "addr = pairSourceIP st" if "pairCount st \<noteq> 0" using that False by simp
    qed (use assms eq in \<open>auto split: result.splits\<close>)
  qed
qed

section \<open>Replies\<close>

text \<open>A reflector whose own configuration is sound: its key, the geoprobe key, its reference offsets.\<close>

definition reflector_ok :: "ed25519 \<Rightarrow> LinuxReflector \<Rightarrow> bool" where
  "reflector_ok c r \<longleftrightarrow> signer_ok c (rsigner r) \<and> length (geoprobePubkey r) = 32 \<and> wf_offsets (offsets r)"

lemma location_data_total: "\<exists>x. location_data os = Ok x"
proof -
  have "ParseOffsetInfo b = (Ok None :: (packet_error, _) result) \<or> (\<exists>i. ParseOffsetInfo b = (Ok (Some i) :: (packet_error, _) result))" for b
    using ParseOffsetInfo_total [of b] by (cases "174 \<le> length b") (auto simp: ParseOffsetInfo_def)
  note parse = this
  show ?thesis
  proof (cases os)
    case (Cons b bs)
    from parse [of b] Cons show ?thesis
      by (elim disjE exE) (simp_all add: location_data_def)
  qed (simp add: location_data_def)
qed

text \<open>The RTT field of the first reference offset, which every reply includes.\<close>

definition reference_rtt :: "bytes list \<Rightarrow> uint64" where
  "reference_rtt os = (case location_data os of Ok (slot, lat, lng, rtt) \<Rightarrow> rtt | _ \<Rightarrow> 0)"

lemma build_reply_ok:
  assumes "reflector_ok c r" "wf_probe p"
  shows "\<exists>rep. build_reply c r p i since ch = Ok (reply_bytes rep) \<and> wf_reply rep \<and> Probe rep = p
    \<and> AuthorityPubkey rep = drop 32 (key (rsigner r)) \<and> GeoprobePubkey rep = geoprobePubkey r
    \<and> Offsets rep = offsets r \<and> SinceLastRxNs rep = since \<and> Challenged rep = ch
    \<and> RttNs rep = (if i then reference_rtt (offsets r) else reference_rtt (offsets r) + since)
    \<and> ReplyPacket_Verify c rep
    \<and> location_data (offsets r) = Ok (MeasurementSlot rep, Lat rep, Lng rep, reference_rtt (offsets r))"
proof -
  obtain slot lat lng rtt where l: "location_data (offsets r) = Ok (slot, lat, lng, rtt)"
    using location_data_total by (metis prod_cases4)
  let ?rtt = "if i then rtt else rtt + since"
  from assms obtain rep where rep: "NewReplyPacket c p (rsigner r) (geoprobePubkey r) (offsets r) slot lat lng since ?rtt ch = Ok rep"
    "wf_reply rep"
    "rep = \<lparr>Probe = p, AuthorityPubkey = drop 32 (key (rsigner r)), GeoprobePubkey = geoprobePubkey r, MeasurementSlot = slot,
        Lat = lat, Lng = lng, SinceLastRxNs = since, RttNs = ?rtt, Offsets = offsets r, Challenged = ch,
        Signature = Signature rep\<rparr>" "ReplyPacket_Verify c rep"
    using NewReplyPacket_ok [of c "rsigner r" p "geoprobePubkey r" "offsets r" slot lat lng since ?rtt ch]
    unfolding reflector_ok_def by blast
  have sel: "Probe rep = p" "AuthorityPubkey rep = drop 32 (key (rsigner r))" "GeoprobePubkey rep = geoprobePubkey r"
    "Offsets rep = offsets r" "SinceLastRxNs rep = since" "Challenged rep = ch" "RttNs rep = ?rtt"
    "MeasurementSlot rep = slot" "Lat rep = lat" "Lng rep = lng"
    by (subst rep(3), simp)+
  have sz: "ReplyPacket_Size rep \<le> length (zeros MaxReplyPacketSize)"
    using rep(2) by (simp add: wf_reply_def wf_offsets_def ReplyPacket_Size_def)
  have "build_reply c r p i since ch = Ok (reply_bytes rep)"
    using rep(1) ReplyPacket_Marshal_eq [OF rep(2) sz]
    by (simp add: build_reply_def l Let_def length_reply_bytes [OF rep(2)])
  with sel rep(2,4) show ?thesis by (intro exI [of _ rep]) (simp add: reference_rtt_def l)
qed

lemma build_reply_no_panic:
  assumes "signer_ok c (rsigner r)" "length (geoprobePubkey r) = 32" "wf_probe p"
  shows "build_reply c r p i since ch \<noteq> Panic"
proof (cases "wf_offsets (offsets r)")
  case True
  with assms build_reply_ok [of c r p i since ch] show ?thesis by (auto simp: reflector_ok_def)
next
  case False
  then have "NewReplyPacket c p (rsigner r) (geoprobePubkey r) (offsets r) slot lat lng s rtt ch \<noteq> Panic"
     "\<And>x. NewReplyPacket c p (rsigner r) (geoprobePubkey r) (offsets r) slot lat lng s rtt ch \<noteq> Ok x"
     for slot lat lng s rtt
    using check_offset_sizes_eq by (auto simp: NewReplyPacket_def wf_offsets_def bind_r_eq_Panic bind_r_eq_Ok)
  then show ?thesis by (auto simp: build_reply_def bind_r_eq_Panic location_data_total Let_def)
      (metis location_data_total result.distinct(3))
qed

section \<open>Steps\<close>

text \<open>What a handled datagram leaves alone: the configuration and the state of every other sender.\<close>

lemma handle_frame:
  assumes "handle c d r = (r', out)"
  shows "authorizedKeys r' = authorizedKeys r" "verifyInterval r' = verifyInterval r"
    "rsigner r' = rsigner r" "geoprobePubkey r' = geoprobePubkey r" "offsets r' = offsets r"
    "(\<And>p. UnmarshalProbePacket (dg_data d) = Ok p \<Longrightarrow> SenderPubkey p \<noteq> k) \<Longrightarrow>
       senderStates r' k = senderStates r k"
  using assms by (auto elim!: handle_cases serve_cases)

text \<open>The state that a probe meets once the two resets have been applied.\<close>

definition entry_state :: "LinuxReflector \<Rightarrow> gotime \<Rightarrow> bytes \<Rightarrow> senderState" where
  "entry_state r now k = stale_reset now (window_reset r (current_state r k))"

lemma entry_state_sel [simp]:
  "pairStart (entry_state r now k) = pairStart (current_state r k)"
  "lastTxTime (entry_state r now k) = lastTxTime (current_state r k)"
  "pairSourceIP (entry_state r now k) = pairSourceIP (current_state r k)"
  by (simp_all add: entry_state_def stale_reset_def window_reset_def)

lemma entry_state_kept: "nonce (entry_state r now k) \<noteq> 0 \<Longrightarrow> entry_state r now k = current_state r k"
  by (auto simp: entry_state_def stale_reset_def window_reset_def split: if_splits)

lemma entry_state_count:
  "pairCount (entry_state r now k) = pairCount (current_state r k) \<or> pairCount (entry_state r now k) = 0"
  by (auto simp: entry_state_def stale_reset_def window_reset_def)

lemma current_state_nonce:
  "nonce (current_state r k) \<noteq> 0 \<Longrightarrow> senderStates r k = Some (current_state r k)"
  by (auto simp: current_state_def new_senderState_def split: option.splits)

text \<open>The state of a sender after one of its probes was handled.\<close>

lemma handle_cases_state [consumes 2, case_names quiet stepped]:
  assumes h: "handle c d r = (r', out)" and u: "UnmarshalProbePacket (dg_data d) = Ok p"
  obtains st where "senderStates r' (SenderPubkey p) = senderStates r (SenderPubkey p)
        \<or> senderStates r' (SenderPubkey p) = Some st \<and> authorizedKeys r (SenderPubkey p) \<noteq> None"
      "st = current_state r (SenderPubkey p) \<or>
         st = entry_state r (kernelTimestamp (dg_oob d) (dg_now_rx d)) (SenderPubkey p)
         \<and> \<not> rate_limited r (kernelTimestamp (dg_oob d) (dg_now_rx d)) (current_state r (SenderPubkey p))"
      "\<And>b a. out \<noteq> Sent b a" "out \<noteq> Crash"
  | now st port addr st2 since ch where
      "now = kernelTimestamp (dg_oob d) (dg_now_rx d)" "st = entry_state r now (SenderPubkey p)"
      "wf_probe p" "authorizedKeys r (SenderPubkey p) \<noteq> None"
      "\<not> rate_limited r now (current_state r (SenderPubkey p))"
      "dg_from d = SockaddrInet4 port addr" "pairCount st \<noteq> 0 \<Longrightarrow> addr = pairSourceIP st"
      "pair_step now (dg_random d) p (st\<lparr>pairSourceIP := addr\<rparr>) = (st2, since, ch)"
      "build_reply c r p (pairCount st = 0) since ch = Panic \<and> out = Crash
         \<and> r' = put_state (SenderPubkey p) st2 r
       \<or> (\<exists>e. build_reply c r p (pairCount st = 0) since ch = Err e \<and> out = Drop (ReplyFailed e)
         \<and> r' = put_state (SenderPubkey p) st2 r)
       \<or> (\<exists>b. build_reply c r p (pairCount st = 0) since ch = Ok b \<and> out = Sent b (dg_from d)
         \<and> r' = put_state (SenderPubkey p) (st2\<lparr>lastTxTime := dg_now_tx d\<rparr>) r)"
  using h
proof (cases rule: handle_cases)
  case dropped
  then show ?thesis by (intro that(1) [of "current_state r (SenderPubkey p)"]) auto
next
  case (limited probe now)
  with u show ?thesis by (intro that(1) [of "current_state r (SenderPubkey p)"]) auto
next
  case (served probe now)
  with u have [simp]: "probe = p" by simp
  from served(6) show ?thesis
  proof (cases rule: serve_cases)
    case refused
    with served show ?thesis
      by (intro that(1) [of "entry_state r now (SenderPubkey p)"]) (auto simp: entry_state_def)
  next
    case (stepped port addr st1 st2 since ch)
    with served show ?thesis
      by (intro that(2) [of now _ port addr st2 since ch]) (simp_all add: entry_state_def)
  qed
qed

text \<open>With a sound configuration an answered probe gets a reply that verifies.\<close>

lemma sent_reply:
  assumes "reflector_ok c r" "wf_probe p" "build_reply c r p i since ch = Ok b"
  obtains rep where "b = reply_bytes rep" "UnmarshalReplyPacket b = Ok rep" "wf_reply rep" "Probe rep = p"
    "AuthorityPubkey rep = drop 32 (key (rsigner r))" "GeoprobePubkey rep = geoprobePubkey r"
    "Offsets rep = offsets r" "SinceLastRxNs rep = since" "Challenged rep = ch"
    "RttNs rep = (if i then reference_rtt (offsets r) else reference_rtt (offsets r) + since)"
    "ReplyPacket_Verify c rep"
    "location_data (offsets r) = Ok (MeasurementSlot rep, Lat rep, Lng rep, reference_rtt (offsets r))"
  using build_reply_ok [OF assms(1,2), of i since ch] assms(3) reply_wire.dec_enc that by auto

section \<open>Invariants of runs\<close>

interpretation reflector_run: event_system "apply_event c" "exec c" for c
  by unfold_locales simp_all

text \<open>
  The invariant of the reflector whose datagrams and setters each run as a whole (under interleaving only
  \<open>sender_inv\<close> remains): only allowlisted senders have state, a nonce is live only between
  the two probes of a pair, and with a positive interval no pair has more than two probes.
\<close>

definition sender_inv :: "duration \<Rightarrow> senderState \<Rightarrow> bool" where
  "sender_inv interval st \<longleftrightarrow> (nonce st \<noteq> 0 \<longrightarrow> pairCount st = 1)
     \<and> (sint interval > 0 \<longrightarrow> pairCount st \<le> 2)"

definition reflector_inv :: "LinuxReflector \<Rightarrow> bool" where
  "reflector_inv r \<longleftrightarrow> (\<forall>k st. senderStates r k = Some st \<longrightarrow>
     authorizedKeys r k \<noteq> None \<and> sender_inv (verifyInterval r) st)"

lemma sender_inv_new [simp]: "sender_inv i new_senderState"
  by (simp add: sender_inv_def new_senderState_def)

lemma current_state_inv: "reflector_inv r \<Longrightarrow> sender_inv (verifyInterval r) (current_state r k)"
  by (auto simp: current_state_def reflector_inv_def split: option.splits)

lemma resets_inv:
  assumes "sender_inv (verifyInterval r) st"
  shows "sender_inv (verifyInterval r) (stale_reset now (window_reset r st))
    \<and> (sint (verifyInterval r) > 0 \<longrightarrow> pairCount (stale_reset now (window_reset r st)) < 2)"
  using assms by (auto simp: sender_inv_def stale_reset_def window_reset_def)

lemma entry_state_inv:
  assumes "reflector_inv r"
  shows "sender_inv (verifyInterval r) (entry_state r now k)
    \<and> (sint (verifyInterval r) > 0 \<longrightarrow> pairCount (entry_state r now k) < 2)"
  using resets_inv [OF current_state_inv [OF assms]] by (simp add: entry_state_def)

lemma pair_step_inv:
  assumes "pair_step now rnd p (st\<lparr>pairSourceIP := addr\<rparr>) = (st2, since, ch)"
    and "sender_inv i st \<and> (sint i > 0 \<longrightarrow> pairCount st < 2)"
  shows "sender_inv i st2" "sender_inv i (st2\<lparr>lastTxTime := t\<rparr>)"
  using pair_step_cases [OF assms(1)] assms(2) by (auto simp: sender_inv_def split: if_splits)

lemma handle_inv:
  assumes inv: "reflector_inv r" and h: "handle c d r = (r', out)"
  shows "reflector_inv r'"
proof -
  have goal: "authorizedKeys r k \<noteq> None \<and> sender_inv (verifyInterval r) st" if s: "senderStates r' k = Some st" for k st
  proof (cases "\<exists>p. UnmarshalProbePacket (dg_data d) = Ok p \<and> SenderPubkey p = k")
    case False
    with handle_frame(6) [OF h, of k] s have "senderStates r k = Some st" by fastforce
    with inv show ?thesis unfolding reflector_inv_def by blast
  next
    case True
    then obtain p where u: "UnmarshalProbePacket (dg_data d) = Ok p" and k: "SenderPubkey p = k" by blast
    from h u show ?thesis
    proof (cases rule: handle_cases_state)
      case (quiet st')
      from quiet(1) s k consider "senderStates r k = Some st" | "st = st'" "authorizedKeys r k \<noteq> None" by auto
      then show ?thesis
        using quiet(2) inv current_state_inv [OF inv] entry_state_inv [OF inv]
        by cases (auto simp: reflector_inv_def)
    next
      case (stepped now st0 port addr st2 since ch)
      have "st = st2 \<or> st = st2\<lparr>lastTxTime := dg_now_tx d\<rparr>" using stepped(9) s k by auto
      then have "sender_inv (verifyInterval r) st"
        using pair_step_inv [OF stepped(8)] entry_state_inv [OF inv, of now k] stepped(2) k by blast
      with stepped(4) k show ?thesis by simp
    qed
  qed
  with handle_frame [OF h] show ?thesis by (simp add: reflector_inv_def)
qed

lemma SetAuthorizedKeys_sel:
  "authorizedKeys (SetAuthorizedKeys ks r) k = (if k \<in> set ks then Some () else None)"
  "senderStates (SetAuthorizedKeys ks r) k =
     (if authorizedKeys r k \<noteq> None \<and> k \<notin> set ks then None else senderStates r k)"
  "verifyInterval (SetAuthorizedKeys ks r) = verifyInterval r" "rsigner (SetAuthorizedKeys ks r) = rsigner r"
  "geoprobePubkey (SetAuthorizedKeys ks r) = geoprobePubkey r" "offsets (SetAuthorizedKeys ks r) = offsets r"
proof -
  have 1: "store_keys ks m k = (if k \<in> set ks then Some () else m k)" for m k
    by (induction ks arbitrary: m) auto
  show "authorizedKeys (SetAuthorizedKeys ks r) k = (if k \<in> set ks then Some () else None)"
    "senderStates (SetAuthorizedKeys ks r) k =
     (if authorizedKeys r k \<noteq> None \<and> k \<notin> set ks then None else senderStates r k)"
    by (cases "authorizedKeys r k"; simp add: SetAuthorizedKeys_def Let_def 1)+
qed (simp_all add: SetAuthorizedKeys_def Let_def)

lemma SetOffsets_sel [simp]:
  "offsets (SetOffsets os r) = os" "senderStates (SetOffsets os r) = senderStates r"
  "authorizedKeys (SetOffsets os r) = authorizedKeys r" "verifyInterval (SetOffsets os r) = verifyInterval r"
  "rsigner (SetOffsets os r) = rsigner r" "geoprobePubkey (SetOffsets os r) = geoprobePubkey r"
  by (simp_all add: SetOffsets_def map_idI)

lemma apply_event_inv: "reflector_inv r \<Longrightarrow> reflector_inv (apply_event c e r)"
proof (cases e)
  case (Dg d)
  then show "reflector_inv r \<Longrightarrow> ?thesis" using handle_inv [of r c d] by (cases "handle c d r") (simp add: apply_event_def)
next
  case (Reload ks)
  then show "reflector_inv r \<Longrightarrow> ?thesis"
    by (auto simp: apply_event_def reflector_inv_def SetAuthorizedKeys_sel split: if_splits)
next
  case (Refresh os)
  then show "reflector_inv r \<Longrightarrow> ?thesis" by (simp add: apply_event_def reflector_inv_def)
qed

text \<open>Events that keep the configuration sound: the anchor refreshes with well-formed offsets.\<close>

definition good_event :: "event \<Rightarrow> bool" where
  "good_event e = (case e of Refresh os \<Rightarrow> wf_offsets os | _ \<Rightarrow> True)"

lemma apply_event_ok: "reflector_ok c r \<Longrightarrow> good_event e \<Longrightarrow> reflector_ok c (apply_event c e r)"
proof (cases e)
  case (Dg d)
  assume "reflector_ok c r"
  then show ?thesis using handle_frame [of c d r] Dg
    by (cases "handle c d r") (simp add: apply_event_def reflector_ok_def)
qed (auto simp: apply_event_def reflector_ok_def good_event_def SetAuthorizedKeys_sel)

lemma exec_ok: "reflector_ok c r \<Longrightarrow> \<forall>e \<in> set es. good_event e \<Longrightarrow> reflector_ok c (exec c es r)"
  by (rule reflector_run.run_invariant) (auto intro: apply_event_ok)

lemma exec_inv: "reflector_inv r \<Longrightarrow> reflector_inv (exec c es r)"
  by (rule reflector_run.run_invariant) (auto intro: apply_event_inv)

text \<open>When a probe is answered, and with what.\<close>

lemma handle_answer:
  assumes ok: "reflector_ok c r" and u: "UnmarshalProbePacket (dg_data d) = Ok p"
    and auth: "authorizedKeys r (SenderPubkey p) \<noteq> None"
    and now: "now = kernelTimestamp (dg_oob d) (dg_now_rx d)"
    and lim: "\<not> rate_limited r now (current_state r (SenderPubkey p))"
    and frm: "dg_from d = SockaddrInet4 prt addr"
    and src: "pairCount (entry_state r now (SenderPubkey p)) = 0 \<or> addr = pairSourceIP (current_state r (SenderPubkey p))"
    and ps: "pair_step now (dg_random d) p (entry_state r now (SenderPubkey p)\<lparr>pairSourceIP := addr\<rparr>) = (st2, since, ch)"
  obtains rep where
    "handle c d r = (put_state (SenderPubkey p) (st2\<lparr>lastTxTime := dg_now_tx d\<rparr>) r, Sent (reply_bytes rep) (dg_from d))"
    "UnmarshalReplyPacket (reply_bytes rep) = Ok rep" "wf_reply rep" "Probe rep = p"
    "AuthorityPubkey rep = drop 32 (key (rsigner r))" "GeoprobePubkey rep = geoprobePubkey r"
    "Offsets rep = offsets r" "SinceLastRxNs rep = since" "Challenged rep = ch"
    "RttNs rep = (if pairCount (entry_state r now (SenderPubkey p)) = 0 then reference_rtt (offsets r)
       else reference_rtt (offsets r) + since)" "ReplyPacket_Verify c rep"
proof -
  have wf: "wf_probe p" using u probe_wire.dec_iff by blast
  obtain r' out where h: "handle c d r = (r', out)" by fastforce
  let ?i = "pairCount (entry_state r now (SenderPubkey p)) = 0"
  from build_reply_ok [OF ok wf, of ?i since ch] obtain b where b: "build_reply c r p ?i since ch = Ok b" by blast
  have len: "length (dg_data d) = 108" using u UnmarshalProbePacket_Err by fastforce
  from h have "serve c d now p (entry_state r now (SenderPubkey p)) r = (r', out)"
    using u auth lim len now by (simp add: handle_def Let_def entry_state_def flip: current_state_def)
  then have "r' = put_state (SenderPubkey p) (st2\<lparr>lastTxTime := dg_now_tx d\<rparr>) r \<and> out = Sent b (dg_from d)"
    using frm src ps b by (cases rule: serve_cases) (auto simp: entry_state_sel)
  with h sent_reply [OF ok wf b] that show thesis by (metis (no_types, lifting))
qed

section \<open>Challenges\<close>

text \<open>
  If a sender has a live nonce after an event, then either the state was the same before and the
  event did not answer the sender, or the event was a probe 0 of the sender that drew the nonce and
  was answered with it.
\<close>

definition answers :: "ed25519 \<Rightarrow> event \<Rightarrow> LinuxReflector \<Rightarrow> bytes \<Rightarrow> bool" where
  "answers c e r k \<longleftrightarrow> (\<exists>d p b a. e = Dg d \<and> UnmarshalProbePacket (dg_data d) = Ok p \<and> SenderPubkey p = k
     \<and> snd (handle c d r) = Sent b a)"

definition issues :: "ed25519 \<Rightarrow> event \<Rightarrow> LinuxReflector \<Rightarrow> bytes \<Rightarrow> senderState \<Rightarrow> bool" where
  "issues c e r k st \<longleftrightarrow> (\<exists>d rep prt. e = Dg d \<and> UnmarshalProbePacket (dg_data d) = Ok (Probe rep) \<and> SenderPubkey (Probe rep) = k
     \<and> snd (handle c d r) = Sent (reply_bytes rep) (dg_from d) \<and> wf_reply rep \<and> ReplyPacket_Verify c rep
     \<and> \<not> Challenged rep \<and> SinceLastRxNs rep = randomNonce (dg_random d)
     \<and> dg_from d = SockaddrInet4 prt (pairSourceIP st) \<and> nonce st = randomNonce (dg_random d)
     \<and> lastTxTime st = dg_now_tx d)"

lemma live_nonce_step:
  assumes ok: "reflector_ok c r" and n: "nonce st \<noteq> 0"
    and s: "senderStates (apply_event c e r) k = Some st"
  shows "issues c e r k st \<or> senderStates r k = Some st \<and> \<not> answers c e r k"
proof (cases "\<exists>d p. e = Dg d \<and> UnmarshalProbePacket (dg_data d) = Ok p \<and> SenderPubkey p = k")
  case False
  have "senderStates r k = Some st"
  proof (cases e)
    case (Dg d)
    with False s handle_frame(6) [of c d r "fst (handle c d r)" "snd (handle c d r)" k] show ?thesis
      by (fastforce simp: apply_event_def)
  qed (use s in \<open>auto simp: apply_event_def SetAuthorizedKeys_sel split: if_splits\<close>)
  with False show ?thesis by (auto simp: answers_def)
next
  case True
  then obtain d p where e: "e = Dg d" and u: "UnmarshalProbePacket (dg_data d) = Ok p" and k: "SenderPubkey p = k" by blast
  obtain r' out where h: "handle c d r = (r', out)" by fastforce
  with s e have s': "senderStates r' k = Some st" by (simp add: apply_event_def)
  from h u show ?thesis
  proof (cases rule: handle_cases_state)
    case (quiet st')
    with s' k n have "senderStates r k = Some st"
      by (metis current_state_nonce entry_state_kept option.inject)
    with quiet(3) e h show ?thesis by (auto simp: answers_def)
  next
    case (stepped now st0 prt addr st2 since ch)
    from build_reply_ok [OF ok stepped(3), of "pairCount st0 = 0" since ch]
    obtain b where b: "build_reply c r p (pairCount st0 = 0) since ch = Ok b" by blast
    with stepped(9) have out: "out = Sent b (dg_from d)" "r' = put_state k (st2\<lparr>lastTxTime := dg_now_tx d\<rparr>) r" using k by auto
    note ps = pair_step_cases [OF stepped(8)]
    from out s' n ps have st: "st = st2\<lparr>lastTxTime := dg_now_tx d\<rparr>" "pairCount st0 = 0"
      by (auto split: if_splits)
    obtain rep where "b = reply_bytes rep" "wf_reply rep" "Probe rep = p" "SinceLastRxNs rep = since" "Challenged rep = ch"
      "ReplyPacket_Verify c rep"
      using sent_reply [OF ok stepped(3) b] by metis
    with e u k h out st ps stepped(6) show ?thesis
      unfolding issues_def by (intro disjI1 exI [of _ d] exI [of _ rep] exI [of _ prt]) auto
  qed
qed

section \<open>Properties\<close>

lemma probe_key_cases:
  assumes "snd (handle c d r) = Sent b a"
  obtains p where "UnmarshalProbePacket (dg_data d) = Ok p" "authorizedKeys r (SenderPubkey p) \<noteq> None"
proof -
  obtain r' out where h: "handle c d r = (r', out)" by fastforce
  from h show thesis by (cases rule: handle_cases) (use assms h that in auto)
qed

lemma entry_state_fresh:
  "nonce (entry_state r now k) \<noteq> 0 \<Longrightarrow> pairCount (current_state r k) = 1 \<Longrightarrow>
   \<not> IsZero (lastTxTime (current_state r k)) \<longrightarrow> sint (Sub now (lastTxTime (current_state r k))) \<le> sint stalePairTimeout"
  by (auto simp: entry_state_def stale_reset_def window_reset_def split: if_splits)

text \<open>A sent reply comes from a step of the pair protocol.\<close>

lemma sent_stepped [consumes 2, case_names stepped]:
  assumes ok: "reflector_ok c r" and s: "snd (handle c d r) = Sent b a"
  obtains p now st prt addr st2 since ch rep where
    "UnmarshalProbePacket (dg_data d) = Ok p" "now = kernelTimestamp (dg_oob d) (dg_now_rx d)"
    "st = entry_state r now (SenderPubkey p)" "wf_probe p" "authorizedKeys r (SenderPubkey p) \<noteq> None"
    "\<not> rate_limited r now (current_state r (SenderPubkey p))"
    "dg_from d = SockaddrInet4 prt addr" "pairCount st \<noteq> 0 \<Longrightarrow> addr = pairSourceIP st"
    "pair_step now (dg_random d) p (st\<lparr>pairSourceIP := addr\<rparr>) = (st2, since, ch)"
    "fst (handle c d r) = put_state (SenderPubkey p) (st2\<lparr>lastTxTime := dg_now_tx d\<rparr>) r" "a = dg_from d"
    "b = reply_bytes rep" "UnmarshalReplyPacket b = Ok rep" "wf_reply rep" "Probe rep = p"
    "AuthorityPubkey rep = drop 32 (key (rsigner r))" "GeoprobePubkey rep = geoprobePubkey r"
    "Offsets rep = offsets r" "SinceLastRxNs rep = since" "Challenged rep = ch"
    "RttNs rep = (if pairCount st = 0 then reference_rtt (offsets r) else reference_rtt (offsets r) + since)"
    "ReplyPacket_Verify c rep"
    "location_data (offsets r) = Ok (MeasurementSlot rep, Lat rep, Lng rep, reference_rtt (offsets r))"
proof -
  obtain r' out where h: "handle c d r = (r', out)" by fastforce
  from s obtain p where u: "UnmarshalProbePacket (dg_data d) = Ok p" by (rule probe_key_cases)
  from h u show thesis
  proof (cases rule: handle_cases_state)
    case (quiet st)
    with s h show ?thesis by auto
  next
    case (stepped now st prt addr st2 since ch)
    from stepped(9) s h have b: "build_reply c r p (pairCount st = 0) since ch = Ok b" "a = dg_from d"
      "r' = put_state (SenderPubkey p) (st2\<lparr>lastTxTime := dg_now_tx d\<rparr>) r" by auto
    from ok stepped(3) b(1) obtain rep where "b = reply_bytes rep" "UnmarshalReplyPacket b = Ok rep" "wf_reply rep" "Probe rep = p"
      "AuthorityPubkey rep = drop 32 (key (rsigner r))" "GeoprobePubkey rep = geoprobePubkey r"
      "Offsets rep = offsets r" "SinceLastRxNs rep = since" "Challenged rep = ch"
      "RttNs rep = (if pairCount st = 0 then reference_rtt (offsets r) else reference_rtt (offsets r) + since)"
      "ReplyPacket_Verify c rep"
      "location_data (offsets r) = Ok (MeasurementSlot rep, Lat rep, Lng rep, reference_rtt (offsets r))" by (rule sent_reply)
    from that [OF u stepped(1-8) _ b(2) this] h b(3) show ?thesis by simp
  qed
qed

text \<open>A live nonce was issued by the last answer to the sender.\<close>

lemma live_nonce_issued:
  assumes "senderStates r0 = Map.empty" "reflector_ok c r0" "\<forall>e \<in> set es. good_event e"
    and "senderStates (exec c es r0) k = Some st" "nonce st \<noteq> 0"
  shows "\<exists>es1 e es2. es = es1 @ e # es2 \<and> issues c e (exec c es1 r0) k st
     \<and> (\<forall>ys e' zs. es2 = ys @ e' # zs \<longrightarrow> \<not> answers c e' (exec c (es1 @ e # ys) r0) k)"
proof (rule reflector_run.since_last)
  show "senderStates (exec c es r0) k = Some st" by (rule assms(4))
next
  fix pre e post
  assume es: "es = pre @ e # post" and s: "senderStates (apply_event c e (exec c pre r0)) k = Some st"
  have "reflector_ok c (exec c pre r0)" using assms(2,3) es by (intro exec_ok) auto
  from live_nonce_step [OF this assms(5) s]
  show "issues c e (exec c pre r0) k st \<or> senderStates (exec c pre r0) k = Some st \<and> \<not> answers c e (exec c pre r0) k" .
qed (simp add: assms(1))

text \<open>
  C1 (\<open>challenge_agreement\<close>). What a \<open>Challenged\<close> reply proves. In any run of a reflector that starts
  without sender states, with any datagrams, reloads and refreshes: if a reply has the challenged bit
  set, then earlier in the run a probe of the same sender, from the same IPv4 address, was answered
  with an unchallenged reply that carried the nonce drawn for it, the nonce is not zero and the
  challenged probe presents exactly it, and no datagram of this sender was answered in between (so a
  nonce is good for one reply). Unless the transmit clock read the zero time, the interval in the
  reply is the time from the transmission of that first reply to the reception of the second probe, at
  most \<open>stalePairTimeout\<close>.
\<close>

theorem challenge_agreement:
  assumes "senderStates r0 = Map.empty" "reflector_ok c r0" "\<forall>e \<in> set es. good_event e"
    and "snd (handle c d (exec c es r0)) = Sent b to" "UnmarshalReplyPacket b = Ok rep" "Challenged rep"
  shows "\<exists>es1 d0 es2 b0 rep0 prt0 prt addr. es = es1 @ Dg d0 # es2
    \<and> snd (handle c d0 (exec c es1 r0)) = Sent b0 (dg_from d0) \<and> UnmarshalReplyPacket b0 = Ok rep0
    \<and> SenderPubkey (Probe rep0) = SenderPubkey (Probe rep) \<and> \<not> Challenged rep0
    \<and> SinceLastRxNs rep0 = randomNonce (dg_random d0) \<and> SinceLastRxNs rep0 \<noteq> 0
    \<and> presentedNonce (Probe rep) = SinceLastRxNs rep0
    \<and> dg_from d0 = SockaddrInet4 prt0 addr \<and> dg_from d = SockaddrInet4 prt addr
    \<and> (\<forall>ys e zs. es2 = ys @ e # zs \<longrightarrow>
         \<not> answers c e (exec c (es1 @ Dg d0 # ys) r0) (SenderPubkey (Probe rep)))
    \<and> (\<not> IsZero (dg_now_tx d0) \<longrightarrow>
         SinceLastRxNs rep = Sub (kernelTimestamp (dg_oob d) (dg_now_rx d)) (dg_now_tx d0)
         \<and> sint (SinceLastRxNs rep) \<le> sint stalePairTimeout)"
proof -
  let ?r = "exec c es r0"
  have okr: "reflector_ok c ?r" using assms exec_ok by blast
  from okr assms(4) show ?thesis
  proof (cases rule: sent_stepped)
  case (stepped p now st prt addr st2 since ch rep')
  note h = stepped(2,3,7,8,9,13,15,19,20)
  with assms(5,6) have rep: "rep' = rep" "ch" by auto
  note ps = pair_step_cases [OF h(5)]
  with rep have n: "nonce st \<noteq> 0" "presentedNonce p = nonce st" "pairCount st \<noteq> 0"
    "since = (if IsZero (lastTxTime st) then 0 else Sub now (lastTxTime st))" by (auto split: if_splits)
  let ?k = "SenderPubkey p"
  have st: "st = current_state ?r ?k" using n h(2) entry_state_kept by blast
  then have cur: "senderStates ?r ?k = Some st" using n current_state_nonce by metis
  have stale: "\<not> IsZero (lastTxTime st) \<longrightarrow> sint (Sub now (lastTxTime st)) \<le> sint stalePairTimeout"
  proof -
    have "reflector_inv ?r" by (rule exec_inv) (simp add: reflector_inv_def assms(1))
    then have "pairCount st = 1" using cur n(1) by (simp add: reflector_inv_def sender_inv_def)
    then show ?thesis using entry_state_fresh [of ?r now ?k] n(1) st h(2) by simp
  qed
  from live_nonce_issued [OF assms(1-3) cur n(1)]
  obtain es1 e es2 where t: "es = es1 @ e # es2" "issues c e (exec c es1 r0) ?k st"
    "\<forall>ys e' zs. es2 = ys @ e' # zs \<longrightarrow> \<not> answers c e' (exec c (es1 @ e # ys) r0) ?k" by blast
  from t(2) obtain d0 rep0 prt0 where i: "e = Dg d0" "SenderPubkey (Probe rep0) = ?k"
    "snd (handle c d0 (exec c es1 r0)) = Sent (reply_bytes rep0) (dg_from d0)" "wf_reply rep0"
    "\<not> Challenged rep0" "SinceLastRxNs rep0 = randomNonce (dg_random d0)"
    "dg_from d0 = SockaddrInet4 prt0 (pairSourceIP st)" "nonce st = randomNonce (dg_random d0)"
    "lastTxTime st = dg_now_tx d0" unfolding issues_def by blast
  show ?thesis
    by (rule exI [of _ es1], rule exI [of _ d0], rule exI [of _ es2], rule exI [of _ "reply_bytes rep0"],
        rule exI [of _ rep0], rule exI [of _ prt0], rule exI [of _ prt], rule exI [of _ addr])
      (use t i h rep n stale reply_wire.dec_enc in auto)
  qed
qed

text \<open>A whole pair: the state after probe 0 is the state that probe 1 meets.\<close>

lemma pair_completes:
  assumes ok: "reflector_ok c r" and auth: "authorizedKeys r k \<noteq> None"
    and p0: "UnmarshalProbePacket (dg_data d0) = Ok p0" "SenderPubkey p0 = k"
    and p1: "UnmarshalProbePacket (dg_data d1) = Ok p1" "SenderPubkey p1 = k"
    and now: "now0 = kernelTimestamp (dg_oob d0) (dg_now_rx d0)" "now1 = kernelTimestamp (dg_oob d1) (dg_now_rx d1)"
    and idle: "\<not> rate_limited r now0 (current_state r k)" "pairCount (entry_state r now0 k) = 0"
    and src: "dg_from d0 = SockaddrInet4 q0 addr" "dg_from d1 = SockaddrInet4 q1 addr"
    and nonce: "randomNonce (dg_random d0) \<noteq> 0" "presentedNonce p1 = randomNonce (dg_random d0)"
    and fresh: "\<not> IsZero (dg_now_tx d0)" "sint (Sub now1 (dg_now_tx d0)) \<le> sint stalePairTimeout"
  shows "\<exists>r1 r2 rep0 rep1. handle c d0 r = (r1, Sent (reply_bytes rep0) (dg_from d0))
     \<and> handle c d1 r1 = (r2, Sent (reply_bytes rep1) (dg_from d1))
     \<and> UnmarshalReplyPacket (reply_bytes rep0) = Ok rep0 \<and> UnmarshalReplyPacket (reply_bytes rep1) = Ok rep1
     \<and> ReplyPacket_Verify c rep0 \<and> ReplyPacket_Verify c rep1 \<and> Probe rep0 = p0 \<and> Probe rep1 = p1
     \<and> \<not> Challenged rep0 \<and> SinceLastRxNs rep0 = randomNonce (dg_random d0)
     \<and> Challenged rep1 \<and> SinceLastRxNs rep1 = Sub now1 (dg_now_tx d0)
     \<and> RttNs rep1 = reference_rtt (offsets r) + Sub now1 (dg_now_tx d0)
     \<and> AuthorityPubkey rep1 = drop 32 (key (rsigner r))"
proof -
  let ?e = "entry_state r now0 k\<lparr>pairSourceIP := addr\<rparr>"
  obtain st1 since0 ch0 where s1: "pair_step now0 (dg_random d0) p0 ?e = (st1, since0, ch0)"
    by (metis prod_cases3)
  note f1 = pair_step_cases [OF s1]
  let ?st = "st1\<lparr>lastTxTime := dg_now_tx d0\<rparr>"
  let ?r1 = "put_state k ?st r"
  obtain rep0 where a0: "handle c d0 r = (?r1, Sent (reply_bytes rep0) (dg_from d0))"
    "UnmarshalReplyPacket (reply_bytes rep0) = Ok rep0" "Probe rep0 = p0" "SinceLastRxNs rep0 = since0" "Challenged rep0 = ch0"
    "ReplyPacket_Verify c rep0"
    using ok p0 auth now(1) idle src(1) s1 by (elim handle_answer [where p = p0 and d = d0]) auto
  have ok1: "reflector_ok c ?r1" using ok by (simp add: reflector_ok_def)
  have cur: "current_state ?r1 k = ?st" by (simp add: current_state_def)
  have st: "pairCount ?st = 1" "pairSourceIP ?st = addr" "nonce ?st = randomNonce (dg_random d0)"
    "since0 = randomNonce (dg_random d0)" "\<not> ch0"
    using f1 idle(2) by auto
  have ent: "entry_state ?r1 now1 k = ?st"
    using cur st fresh by (simp add: entry_state_def window_reset_def stale_reset_def)
  have lim: "\<not> rate_limited ?r1 now1 ?st" using st by (simp add: rate_limited_def)
  have same: "?st\<lparr>pairSourceIP := addr\<rparr> = ?st" using st(2) by simp
  obtain st2 since1 ch1 where s2: "pair_step now1 (dg_random d1) p1 ?st = (st2, since1, ch1)"
    by (metis prod_cases3)
  note f2 = pair_step_cases [OF s2]
  obtain rep1 where a1: "handle c d1 ?r1 = (put_state k (st2\<lparr>lastTxTime := dg_now_tx d1\<rparr>) ?r1, Sent (reply_bytes rep1) (dg_from d1))"
    "UnmarshalReplyPacket (reply_bytes rep1) = Ok rep1" "Probe rep1 = p1" "SinceLastRxNs rep1 = since1" "Challenged rep1 = ch1"
    "RttNs rep1 = reference_rtt (offsets r) + since1" "ReplyPacket_Verify c rep1"
    "AuthorityPubkey rep1 = drop 32 (key (rsigner r))"
    using ok1 p1 auth now(2) lim src(2) s2 same st cur ent
    by (elim handle_answer [where p = p1 and d = d1 and r = ?r1]) auto
  have "since1 = Sub now1 (dg_now_tx d0)" "ch1"
    using f2 st fresh nonce by (auto split: if_splits)
  with a0 a1 st show ?thesis
    by (intro exI [of _ ?r1] exI [of _ "put_state k (st2\<lparr>lastTxTime := dg_now_tx d1\<rparr>) ?r1"] exI [of _ rep0] exI [of _ rep1]) simp
qed

text \<open>A reflector with one allowlisted sender, and two datagrams of that sender.\<close>

definition sample_reflector :: LinuxReflector where
  "sample_reflector = \<lparr>fd = 3, epfd = 4, port = 8000, timeout = 0, verifyInterval = 30000000000, rsigner = toy_signer,
     geoprobePubkey = zeros 32, authorizedKeys = [zeros 32 \<mapsto> ()], senderStates = Map.empty,
     offsets = [], shutdown = False, closed = False\<rparr>"

definition sample_time :: "int \<Rightarrow> gotime" where
  "sample_time ns = \<lparr>wall = ns, mono = None\<rparr>"

definition sample_dg :: "uint32 \<Rightarrow> uint32 \<Rightarrow> int \<Rightarrow> datagram" where
  "sample_dg sec frac t = \<lparr>dg_data = probe_bytes (sample_probe\<lparr>Sec := sec, Frac := frac\<rparr>), dg_oob = [],
     dg_from = SockaddrInet4 4000 [10, 0, 0, 1], dg_now_rx = sample_time t,
     dg_random = Some [0, 0, 0, 0, 0, 0, 0, 5], dg_now_tx = sample_time (t + 1000)\<rparr>"

lemma wf_sample_dg [simp]:
  "UnmarshalProbePacket (dg_data (sample_dg sec frac t)) = Ok (sample_probe\<lparr>Sec := sec, Frac := frac\<rparr>)"
  by (simp add: sample_dg_def Unmarshal_probe_bytes wf_probe_def sample_probe_def)

lemma sample_reflector_ok [simp]: "reflector_ok toy_ed25519 sample_reflector"
  by (simp add: reflector_ok_def sample_reflector_def toy_signer_ok wf_offsets_def)

lemma sample_dg_sel [simp]:
  "dg_oob (sample_dg s f t) = []" "dg_now_rx (sample_dg s f t) = sample_time t"
  "dg_now_tx (sample_dg s f t) = sample_time (t + 1000)" "dg_from (sample_dg s f t) = SockaddrInet4 4000 [10, 0, 0, 1]"
  "randomNonce (dg_random (sample_dg s f t)) = 5"
  "kernelTimestamp [] u = u"
  by (simp_all add: sample_dg_def kernelTimestamp_none randomNonce_def)

lemma sample_idle [simp]:
  "senderStates sample_reflector = Map.empty" "authorizedKeys sample_reflector (zeros 32) \<noteq> None"
  "\<not> rate_limited sample_reflector t new_senderState"
  "current_state sample_reflector k = new_senderState"
  "pairCount (entry_state sample_reflector t k) = 0"
  by (simp_all add: sample_reflector_def rate_limited_def new_senderState_def current_state_def
      entry_state_def window_reset_def stale_reset_def)

lemma sample_nonce [simp]: "presentedNonce (sample_probe\<lparr>Sec := 0, Frac := 5\<rparr>) = 5"
  by (simp add: presentedNonce_def)

lemma sample_key [simp]: "SenderPubkey (sample_probe\<lparr>Sec := s, Frac := f\<rparr>) = zeros 32"
  by (simp add: sample_probe_def)

lemma sample_elapsed:
  "\<not> IsZero (sample_time 1001000)" "sint (Sub (sample_time 2000000) (sample_time 1001000)) = 999000"
  by (simp_all add: sample_time_def IsZero_def zero_time_def sint_Sub time_diff_def sat64_def Second_def)

lemmas sample_pair = pair_completes [OF sample_reflector_ok sample_idle(2) wf_sample_dg [of 1 2 1000000] _
  wf_sample_dg [of 0 5 2000000] _ refl refl, where addr = "[10, 0, 0, 1]" and ?q0.0 = 4000 and ?q1.0 = 4000]

theorem challenge_agreement_witness:
  "\<exists>b rep d0. snd (handle toy_ed25519 (sample_dg 0 5 2000000) (exec toy_ed25519 [Dg (sample_dg 1 2 1000000)] sample_reflector))
       = Sent b (SockaddrInet4 4000 [10, 0, 0, 1])
     \<and> UnmarshalReplyPacket b = Ok rep \<and> Challenged rep
     \<and> Dg d0 \<in> set [Dg (sample_dg 1 2 1000000)] \<and> presentedNonce (Probe rep) = randomNonce (dg_random d0)"
proof -
  obtain r1 r2 rep0 rep1 where
    h: "handle toy_ed25519 (sample_dg 1 2 1000000) sample_reflector = (r1, Sent (reply_bytes rep0) (dg_from (sample_dg 1 2 1000000)))"
      "handle toy_ed25519 (sample_dg 0 5 2000000) r1 = (r2, Sent (reply_bytes rep1) (dg_from (sample_dg 0 5 2000000)))"
      "UnmarshalReplyPacket (reply_bytes rep1) = Ok rep1" "Challenged rep1"
    using sample_pair sample_elapsed by (auto simp: stalePairTimeout_def)
  then have s: "snd (handle toy_ed25519 (sample_dg 0 5 2000000) (exec toy_ed25519 [Dg (sample_dg 1 2 1000000)] sample_reflector))
     = Sent (reply_bytes rep1) (SockaddrInet4 4000 [10, 0, 0, 1])"
    by (simp add: apply_event_def)
  have g: "\<forall>e \<in> set [Dg (sample_dg 1 2 1000000)]. good_event e" by (simp add: good_event_def)
  obtain es1 d0 es2 where e: "[Dg (sample_dg 1 2 1000000)] = es1 @ Dg d0 # es2"
    and n: "presentedNonce (Probe rep1) = randomNonce (dg_random d0)"
    using challenge_agreement [OF sample_idle(1) sample_reflector_ok g s h(3,4)] by metis
  from e have "Dg d0 \<in> set [Dg (sample_dg 1 2 1000000)]" by (metis in_set_conv_decomp)
  with n s h(3,4) show ?thesis by blast
qed

text \<open>
  C21 (\<open>honest_pair_challenged\<close>). The pair protocol succeeds: when a sender on the allowlist has no
  pair open and is not rate limited, its probe 0 is answered with a fresh nonce, and a probe 1 from the
  same address that presents the nonce within \<open>stalePairTimeout\<close> is answered with a reply that has the
  challenged bit set and carries the measured interval, added to the reference RTT. Nothing is assumed
  about the signatures of the two probes: the reflector does not check them.
\<close>

theorem honest_pair_challenged:
  assumes ok: "reflector_ok c r" and auth: "authorizedKeys r k \<noteq> None"
    and p0: "UnmarshalProbePacket (dg_data d0) = Ok p0" "SenderPubkey p0 = k"
    and p1: "UnmarshalProbePacket (dg_data d1) = Ok p1" "SenderPubkey p1 = k"
    and now: "now0 = kernelTimestamp (dg_oob d0) (dg_now_rx d0)" "now1 = kernelTimestamp (dg_oob d1) (dg_now_rx d1)"
    and idle: "\<not> rate_limited r now0 (current_state r k)" "pairCount (entry_state r now0 k) = 0"
    and src: "dg_from d0 = SockaddrInet4 q0 addr" "dg_from d1 = SockaddrInet4 q1 addr"
    and nonce: "randomNonce (dg_random d0) \<noteq> 0" "presentedNonce p1 = randomNonce (dg_random d0)"
    and fresh: "\<not> IsZero (dg_now_tx d0)" "sint (Sub now1 (dg_now_tx d0)) \<le> sint stalePairTimeout"
  shows "\<exists>r1 r2 rep0 rep1. handle c d0 r = (r1, Sent (reply_bytes rep0) (dg_from d0))
     \<and> handle c d1 r1 = (r2, Sent (reply_bytes rep1) (dg_from d1))
     \<and> UnmarshalReplyPacket (reply_bytes rep0) = Ok rep0 \<and> UnmarshalReplyPacket (reply_bytes rep1) = Ok rep1
     \<and> ReplyPacket_Verify c rep0 \<and> ReplyPacket_Verify c rep1 \<and> Probe rep0 = p0 \<and> Probe rep1 = p1
     \<and> \<not> Challenged rep0 \<and> SinceLastRxNs rep0 = randomNonce (dg_random d0)
     \<and> Challenged rep1 \<and> SinceLastRxNs rep1 = Sub now1 (dg_now_tx d0)
     \<and> RttNs rep1 = reference_rtt (offsets r) + Sub now1 (dg_now_tx d0)
     \<and> AuthorityPubkey rep1 = drop 32 (key (rsigner r))"
  by (rule pair_completes) (fact ok auth p0 p1 now idle src nonce fresh)+

theorem honest_pair_challenged_witness:
  "\<exists>r1 r2 rep0 rep1. handle toy_ed25519 (sample_dg 1 2 1000000) sample_reflector
       = (r1, Sent (reply_bytes rep0) (SockaddrInet4 4000 [10, 0, 0, 1]))
     \<and> handle toy_ed25519 (sample_dg 0 5 2000000) r1 = (r2, Sent (reply_bytes rep1) (SockaddrInet4 4000 [10, 0, 0, 1]))
     \<and> Challenged rep1 \<and> sint (SinceLastRxNs rep1) = 999000"
  using honest_pair_challenged [OF sample_reflector_ok sample_idle(2) wf_sample_dg [of 1 2 1000000] _
      wf_sample_dg [of 0 5 2000000] _ refl refl, where addr = "[10, 0, 0, 1]" and ?q0.0 = 4000 and ?q1.0 = 4000]
    sample_elapsed
  by (simp add: stalePairTimeout_def) metis

lemmas handle_frame_fst = handle_frame [OF surjective_pairing]

lemma apply_event_config [simp]:
  "verifyInterval (apply_event c e r) = verifyInterval r" "rsigner (apply_event c e r) = rsigner r"
  "geoprobePubkey (apply_event c e r) = geoprobePubkey r"
  by (cases e; simp add: apply_event_def handle_frame_fst SetAuthorizedKeys_sel)+

lemma NewLinuxReflector_Inr:
  assumes "NewLinuxReflector env tmo s g ks iv = (Inr r, fds)"
  shows "senderStates r = Map.empty" "authorizedKeys r k = (if k \<in> set ks then Some () else None)"
    "verifyInterval r = iv" "rsigner r = s" "geoprobePubkey r = g" "offsets r = []"
proof -
  have 1: "store_keys ks m k = (if k \<in> set ks then Some () else m k)" for m k
    by (induction ks arbitrary: m) auto
  show "senderStates r = Map.empty" "authorizedKeys r k = (if k \<in> set ks then Some () else None)"
    "verifyInterval r = iv" "rsigner r = s" "geoprobePubkey r = g" "offsets r = []"
    using assms by (auto simp: NewLinuxReflector_def Let_def 1 split: option.splits sum.splits)
qed

definition sample_env :: socket_env where
  "sample_env = \<lparr>se_resolve = Some 8000, se_socket = Inr 3, se_bind = None, se_getsockname = Inr 8000,
     se_epoll_create = Inr 4, se_epoll_ctl = None, se_timestampns = None\<rparr>"

lemma sample_reflector_new:
  "NewLinuxReflector sample_env 0 toy_signer (zeros 32) [zeros 32] 30000000000 = (Inr sample_reflector, {4, 3})"
  by (simp add: NewLinuxReflector_def sample_env_def sample_reflector_def Let_def)

text \<open>
  C13 (\<open>reflector_answers_iff\<close>). Exactly when a decoded probe is answered: the sender is on the
  allowlist; if its pair is complete, at least the verify interval has passed since the pair began
  (with a positive interval); the probe came over IPv4; and unless it starts a fresh pair, because
  none was open, the window was over, or the last reply is older than \<open>stalePairTimeout\<close>, it came from
  the address the pair began with.
\<close>

theorem reflector_answers_iff:
  assumes "reflector_ok c r" "UnmarshalProbePacket (dg_data d) = Ok p"
    and "now = kernelTimestamp (dg_oob d) (dg_now_rx d)" "st = current_state r (SenderPubkey p)"
  shows "(\<exists>b. snd (handle c d r) = Sent b (dg_from d)) \<longleftrightarrow>
     authorizedKeys r (SenderPubkey p) \<noteq> None
     \<and> \<not> (sint (verifyInterval r) > 0 \<and> pairCount st \<ge> 2 \<and> sint (Sub now (pairStart st)) < sint (verifyInterval r))
     \<and> (\<exists>prt addr. dg_from d = SockaddrInet4 prt addr \<and>
          (pairCount st = 0 \<or> sint (verifyInterval r) > 0 \<and> pairCount st \<ge> 2
           \<or> pairCount st = 1 \<and> \<not> IsZero (lastTxTime st) \<and> sint (Sub now (lastTxTime st)) > sint stalePairTimeout
           \<or> addr = pairSourceIP st))" (is "?L \<longleftrightarrow> ?R")
proof -
  let ?e = "entry_state r now (SenderPubkey p)"
  have e: "pairCount ?e = 0 \<longleftrightarrow> pairCount st = 0 \<or> sint (verifyInterval r) > 0 \<and> pairCount st \<ge> 2
           \<or> pairCount st = 1 \<and> \<not> IsZero (lastTxTime st) \<and> sint (Sub now (lastTxTime st)) > sint stalePairTimeout"
    by (auto simp: entry_state_def stale_reset_def window_reset_def assms(4))
  show ?thesis
  proof
    assume ?L
    then obtain b where b: "snd (handle c d r) = Sent b (dg_from d)" by blast
    with assms(1) show ?R
      by (cases rule: sent_stepped) (use assms e in \<open>auto simp: rate_limited_def\<close>)
  next
    assume R: ?R
    then obtain prt addr where f: "dg_from d = SockaddrInet4 prt addr" "pairCount ?e = 0 \<or> addr = pairSourceIP st"
      using e by blast
    obtain st2 since ch where ps: "pair_step now (dg_random d) p (?e\<lparr>pairSourceIP := addr\<rparr>) = (st2, since, ch)"
      by (metis prod_cases3)
    show ?L
      by (rule handle_answer [OF assms(1,2) _ assms(3) _ f(1) _ ps])
        (use R f assms(4) in \<open>auto simp: rate_limited_def\<close>)
  qed
qed

theorem reflector_answers_iff_witness:
  "\<exists>b. snd (handle toy_ed25519 (sample_dg 1 2 1000000) sample_reflector) = Sent b (dg_from (sample_dg 1 2 1000000))"
  using reflector_answers_iff [OF sample_reflector_ok wf_sample_dg [of 1 2 1000000] refl refl]
  by (simp add: new_senderState_def)

text \<open>The allowlist in force after a sequence of events.\<close>

fun last_reload :: "bytes list \<Rightarrow> event list \<Rightarrow> bytes list" where
  "last_reload ks [] = ks"
| "last_reload ks (Reload ks' # es) = last_reload ks' es"
| "last_reload ks (e # es) = last_reload ks es"

lemma authorizedKeys_exec:
  "\<forall>k. authorizedKeys r k = (if k \<in> set ks then Some () else None) \<Longrightarrow>
   authorizedKeys (exec c es r) k = (if k \<in> set (last_reload ks es) then Some () else None)"
proof (induction ks es arbitrary: r rule: last_reload.induct)
  case (2 ks ks' es)
  then show ?case by (simp add: apply_event_def SetAuthorizedKeys_sel)
qed (simp_all add: apply_event_def handle_frame_fst)

text \<open>
  C7 (\<open>reflector_replies\<close>). Who gets an answer and what it is. Whatever has happened before, a reply is
  sent only to the address the datagram came from, only for a datagram that decodes to a probe whose
  sender is in the list of the most recent reload; it has at most \<open>MaxReplyPacketSize\<close> bytes, decodes
  to a packet that repeats the probe and names the anchor's key as authority, and it verifies.
\<close>

theorem reflector_replies:
  assumes "NewLinuxReflector env tmo s g ks iv = (Inr r0, fds)" "signer_ok c s" "length g = 32"
    and "\<forall>e \<in> set es. good_event e" "snd (handle c d (exec c es r0)) = Sent b to"
  shows "to = dg_from d \<and> length b \<le> MaxReplyPacketSize \<and>
    (\<exists>rep. UnmarshalProbePacket (dg_data d) = Ok (Probe rep) \<and> SenderPubkey (Probe rep) \<in> set (last_reload ks es)
      \<and> UnmarshalReplyPacket b = Ok rep \<and> ReplyPacket_Verify c rep
      \<and> AuthorityPubkey rep = drop 32 (key s) \<and> GeoprobePubkey rep = g)"
proof -
  note new = NewLinuxReflector_Inr [OF assms(1)]
  have ok0: "reflector_ok c r0" using assms(2,3) new by (simp add: reflector_ok_def wf_offsets_def)
  have ok: "reflector_ok c (exec c es r0)" by (rule exec_ok [OF ok0 assms(4)])
  have cfg: "rsigner (exec c es r0) = s \<and> geoprobePubkey (exec c es r0) = g"
    by (rule reflector_run.run_invariant [where I = "\<lambda>r. rsigner r = s \<and> geoprobePubkey r = g"]) (simp_all add: new)
  from ok assms(5) show ?thesis
  proof (cases rule: sent_stepped)
    case (stepped p now st prt addr st2 since ch rep)
    have "length b \<le> MaxReplyPacketSize"
      using stepped(12,14) by (simp add: length_reply_bytes wf_reply_def wf_offsets_def ReplyPacket_Size_def)
    moreover have "SenderPubkey p \<in> set (last_reload ks es)"
      using stepped(5) authorizedKeys_exec [of r0 ks c es "SenderPubkey p"] new(2) by (auto split: if_splits)
    ultimately show ?thesis using stepped cfg by auto
  qed
qed

theorem reflector_replies_witness:
  "\<exists>b rep. snd (handle toy_ed25519 (sample_dg 1 2 1000000) (exec toy_ed25519 [Reload [zeros 32]] sample_reflector))
       = Sent b (SockaddrInet4 4000 [10, 0, 0, 1])
     \<and> UnmarshalReplyPacket b = Ok rep \<and> ReplyPacket_Verify toy_ed25519 rep \<and> SenderPubkey (Probe rep) = zeros 32"
proof -
  have r: "exec toy_ed25519 [Reload [zeros 32]] sample_reflector = sample_reflector"
    by (simp add: apply_event_def SetAuthorizedKeys_def Let_def sample_reflector_def fun_eq_iff)
  have f: "dg_from (sample_dg 1 2 1000000) = SockaddrInet4 4000 [10, 0, 0, 1]" by simp
  obtain st2 since ch where ps: "pair_step (sample_time 1000000) (dg_random (sample_dg 1 2 1000000)) (sample_probe\<lparr>Sec := 1, Frac := 2\<rparr>)
     (entry_state sample_reflector (sample_time 1000000) (zeros 32)\<lparr>pairSourceIP := [10, 0, 0, 1]\<rparr>) = (st2, since, ch)"
    by (metis prod_cases3)
  obtain b where b: "snd (handle toy_ed25519 (sample_dg 1 2 1000000) (exec toy_ed25519 [Reload [zeros 32]] sample_reflector))
       = Sent b (SockaddrInet4 4000 [10, 0, 0, 1])" unfolding r
    by (rule handle_answer [OF sample_reflector_ok wf_sample_dg [of 1 2 1000000] _ refl _ f]) (use ps in auto)
  from reflector_replies [OF sample_reflector_new toy_signer_ok _ _ b] b show ?thesis
    by (auto simp: good_event_def)
qed

lemma handle_no_crash:
  assumes "signer_ok c (rsigner r)" "length (geoprobePubkey r) = 32"
  shows "snd (handle c d r) \<noteq> Crash"
proof (cases "\<exists>p. UnmarshalProbePacket (dg_data d) = Ok p")
  case True
  then obtain p where u: "UnmarshalProbePacket (dg_data d) = Ok p" by blast
  obtain r' out where h: "handle c d r = (r', out)" by fastforce
  from h u show ?thesis
  proof (cases rule: handle_cases_state)
    case (stepped now st prt addr st2 since ch)
    from stepped(9) build_reply_no_panic [OF assms stepped(3)] h show ?thesis by auto
  qed (use h in auto)
next
  case False
  then have "length (dg_data d) \<noteq> 108" using UnmarshalProbePacket_total by blast
  then show ?thesis by (simp add: handle_def)
qed

lemma recv_loop_no_crash:
  assumes "signer_ok c (rsigner r)" "length (geoprobePubkey r) = 32"
  shows "snd (snd (recv_loop c rs r)) \<noteq> Crashed \<and> rsigner (fst (recv_loop c rs r)) = rsigner r
    \<and> geoprobePubkey (fst (recv_loop c rs r)) = geoprobePubkey r"
  using assms
proof (induction rs arbitrary: r)
  case (Cons rr rs)
  show ?case
  proof (cases rr)
    case (Recv d)
    obtain r' out where h: "handle c d r = (r', out)" by fastforce
    have "out \<noteq> Crash" using handle_no_crash [OF Cons.prems, of d] h by simp
    with Recv h Cons.IH [of r'] Cons.prems handle_frame(3,4) [OF h] show ?thesis
      by (cases out) (auto split: prod.splits)
  qed auto
qed simp

lemma Run_config:
  assumes "signer_ok c (rsigner r)" "length (geoprobePubkey r) = 32"
  shows "snd (snd (Run c its r)) \<noteq> Crashed
    \<and> (\<forall>err. snd (snd (Run c its r)) = Returned err \<longrightarrow> closed (fst (Run c its r)))"
  using assms
proof (induction its arbitrary: r)
  case (Cons it its)
  have s: "snd (snd (run_iteration c it r)) \<noteq> Crashed \<and> rsigner (fst (run_iteration c it r)) = rsigner r
    \<and> geoprobePubkey (fst (run_iteration c it r)) = geoprobePubkey r"
    using recv_loop_no_crash [OF Cons.prems] by (auto simp: run_iteration_def Let_def split: prod.splits)
  obtain r' outs e where i: "run_iteration c it r = (r', outs, e)" by (metis prod_cases3)
  show ?case
    using s i Cons.IH [of r'] Cons.prems by (cases e) (auto split: prod.splits)
qed simp

text \<open>
  C22 (\<open>Run_never_crashes\<close>). No sequence of received datagrams, ancillary data, clock readings, epoll
  results and errors makes the reflector's loop panic, whatever the reference offsets are, as long as
  its own signing key is a valid one and the geoprobe key has 32 bytes. The loop ends only by
  returning, and when it has returned \<open>closed\<close> is set, so that \<open>Close\<close> returns at once.
\<close>

theorem Run_never_crashes:
  assumes "signer_ok c (rsigner r)" "length (geoprobePubkey r) = 32"
  shows "snd (snd (Run c its r)) \<noteq> Crashed
    \<and> (\<forall>err. snd (snd (Run c its r)) = Returned err \<longrightarrow> snd (Close (fst (Run c its r))) = CloseReturns)"
  using Run_config [OF assms] by (auto simp: Close_def)

theorem Run_never_crashes_witness:
  "signer_ok toy_ed25519 (rsigner sample_reflector) \<and> snd (snd (Run toy_ed25519
     [\<lparr>it_ctx_done = False, it_shutdown = False, it_deadline = None, it_now = sample_time 0, it_until_now = sample_time 0,
       it_epoll = (1, None), it_recv = [Recv (sample_dg 1 2 1000000), RecvErr EAGAIN]\<rparr>] sample_reflector)) \<noteq> Crashed"
  by (intro conjI Run_never_crashes [THEN conjunct1])
    (simp_all add: sample_reflector_def toy_signer_ok)

section \<open>Separation of senders\<close>

text \<open>Two reflectors that a sender cannot tell apart: same configuration, same state for its key.\<close>

definition same_for :: "bytes \<Rightarrow> LinuxReflector \<Rightarrow> LinuxReflector \<Rightarrow> bool" where
  "same_for k r r' \<longleftrightarrow> senderStates r k = senderStates r' k \<and> authorizedKeys r = authorizedKeys r'
     \<and> verifyInterval r = verifyInterval r' \<and> rsigner r = rsigner r' \<and> geoprobePubkey r = geoprobePubkey r'
     \<and> offsets r = offsets r'"

definition concerns :: "bytes \<Rightarrow> event \<Rightarrow> bool" where
  "concerns k e = (case e of Dg d \<Rightarrow>
      (case UnmarshalProbePacket (dg_data d) of Ok p \<Rightarrow> SenderPubkey p = k | _ \<Rightarrow> False) | _ \<Rightarrow> True)"

lemma same_for_put: "same_for k r r' \<Longrightarrow> same_for k (put_state k st r) (put_state k st r')"
  by (simp add: same_for_def)

lemma same_for_parts:
  assumes "same_for k r r'"
  shows "rate_limited r = rate_limited r'" "window_reset r = window_reset r'"
    "build_reply c r = build_reply c r'" "current_state r k = current_state r' k"
  using assms by (auto simp: same_for_def rate_limited_def window_reset_def build_reply_def current_state_def fun_eq_iff)

lemma same_for_serve:
  assumes "same_for (SenderPubkey p) r r'"
  shows "snd (serve c d now p st r) = snd (serve c d now p st r')
    \<and> same_for (SenderPubkey p) (fst (serve c d now p st r)) (fst (serve c d now p st r'))"
  using assms same_for_put [OF assms] same_for_parts(3) [OF assms, of c]
  by (auto simp: serve_def Let_def split: sockaddr.splits prod.splits result.splits)

lemma same_for_handle:
  assumes s: "same_for k r r'" and u: "UnmarshalProbePacket (dg_data d) = Ok p" "SenderPubkey p = k"
  shows "snd (handle c d r) = snd (handle c d r') \<and> same_for k (fst (handle c d r)) (fst (handle c d r'))"
proof -
  have a: "authorizedKeys r = authorizedKeys r'" using s by (simp add: same_for_def)
  show ?thesis
    using same_for_parts [OF s] same_for_put [OF s] same_for_serve [of p r r'] s u a
    by (simp add: handle_def Let_def flip: current_state_def)
qed

lemma same_for_refl [simp]: "same_for k r r" by (simp add: same_for_def)

lemma same_for_trans: "same_for k r r' \<Longrightarrow> same_for k r' r'' \<Longrightarrow> same_for k r r''"
  by (simp add: same_for_def)

lemma same_for_apply:
  assumes "same_for k r r'"
  shows "concerns k e \<Longrightarrow> same_for k (apply_event c e r) (apply_event c e r')"
    and "\<not> concerns k e \<Longrightarrow> same_for k (apply_event c e r) r'"
proof -
  show "same_for k (apply_event c e r) (apply_event c e r')" if "concerns k e"
  proof (cases e)
    case (Dg d)
    with that obtain p where "UnmarshalProbePacket (dg_data d) = Ok p" "SenderPubkey p = k"
      by (auto simp: concerns_def split: result.splits)
    with same_for_handle [OF assms] Dg show ?thesis by (simp add: apply_event_def)
  next
    case (Reload ks)
    with assms show ?thesis by (simp add: apply_event_def same_for_def SetAuthorizedKeys_sel fun_eq_iff)
  next
    case (Refresh os)
    with assms show ?thesis by (simp add: apply_event_def same_for_def)
  qed
  show "same_for k (apply_event c e r) r'" if "\<not> concerns k e"
  proof -
    from that obtain d where "e = Dg d" "\<And>p. UnmarshalProbePacket (dg_data d) = Ok p \<Longrightarrow> SenderPubkey p \<noteq> k"
      by (cases e) (fastforce simp: concerns_def)+
    with assms show ?thesis by (simp add: apply_event_def same_for_def handle_frame_fst)
  qed
qed

lemma same_for_exec: "same_for k r r' \<Longrightarrow> same_for k (exec c es r) (exec c (filter (concerns k) es) r')"
  by (induction es arbitrary: r r') (auto intro: same_for_apply)

text \<open>
  C14 (\<open>sender_isolation\<close>). Senders do not influence each other: what the reflector does with a probe of a
  sender after any run is what it would have done if no datagram of any other sender, authorized or
  not, and no malformed datagram had ever arrived.
\<close>

theorem sender_isolation:
  assumes "UnmarshalProbePacket (dg_data d) = Ok p"
  shows "snd (handle c d (exec c es r)) = snd (handle c d (exec c (filter (concerns (SenderPubkey p)) es) r))"
  using same_for_handle [OF same_for_exec [OF same_for_refl] assms refl] by blast

theorem sender_isolation_witness:
  "snd (handle toy_ed25519 (sample_dg 0 5 2000000) (exec toy_ed25519 [Dg ((sample_dg 0 0 0)\<lparr>dg_data := []\<rparr>)] sample_reflector))
   = snd (handle toy_ed25519 (sample_dg 0 5 2000000) sample_reflector)"
  using sender_isolation [OF wf_sample_dg [of 0 5 2000000], of toy_ed25519 "[Dg ((sample_dg 0 0 0)\<lparr>dg_data := []\<rparr>)]" sample_reflector]
  by (simp add: concerns_def UnmarshalProbePacket_Err)

section \<open>Edge cases\<close>

text \<open>
  A sender whose pair is complete while the interval is not positive: nothing resets the counter.
\<close>

definition parked :: "ed25519 \<Rightarrow> bytes \<Rightarrow> bytes \<Rightarrow> LinuxReflector \<Rightarrow> bool" where
  "parked c k addr r \<longleftrightarrow> reflector_ok c r \<and> sint (verifyInterval r) \<le> 0 \<and> (\<exists>st. senderStates r k = Some st
    \<and> pairCount st \<ge> 2 \<and> nonce st = 0 \<and> pairSourceIP st = addr)"

lemma parked_entry:
  "parked c k addr r \<Longrightarrow> entry_state r now k = current_state r k \<and> pairCount (current_state r k) \<ge> 2
     \<and> nonce (current_state r k) = 0 \<and> pairSourceIP (current_state r k) = addr"
  by (auto simp: parked_def current_state_def entry_state_def window_reset_def stale_reset_def)

lemma parked_step:
  assumes I: "parked c k addr r" and e: "good_event e" "\<And>ks. e \<noteq> Reload ks"
  shows "parked c k addr (apply_event c e r)"
proof -
  have ok: "reflector_ok c (apply_event c e r)" using I e by (auto simp: parked_def intro: apply_event_ok)
  show ?thesis
  proof (cases "\<exists>d p. e = Dg d \<and> UnmarshalProbePacket (dg_data d) = Ok p \<and> SenderPubkey p = k")
    case True
    then obtain d p where e': "e = Dg d" and u: "UnmarshalProbePacket (dg_data d) = Ok p" and k: "SenderPubkey p = k" by blast
    obtain r' out where h: "handle c d r = (r', out)" by fastforce
    from h u have "\<exists>st. senderStates r' k = Some st \<and> pairCount st \<ge> 2 \<and> nonce st = 0 \<and> pairSourceIP st = addr"
    proof (cases rule: handle_cases_state)
      case (quiet st)
      with parked_entry [OF I] k I show ?thesis by (auto simp: parked_def)
    next
      case (stepped now st0 prt a st2 since ch)
      with parked_entry [OF I, of now] k pair_step_cases [OF stepped(8)] show ?thesis by auto
    qed
    with ok I e' h show ?thesis by (simp add: parked_def) (simp add: apply_event_def)
  next
    case False
    have "senderStates (apply_event c e r) k = senderStates r k"
      using False e handle_frame_fst(6) by (cases e) (fastforce simp: apply_event_def)+
    with ok I show ?thesis by (simp add: parked_def)
  qed
qed

text \<open>
  With a verify interval that is zero or negative the pair counter is
  never reset once a pair is complete: from then on, until a reload drops the sender, every probe is
  treated as a probe 1, so no reply to this sender ever has the challenged bit again, and every reply
  goes to the address of the first pair.
\<close>

theorem no_interval_no_challenge:
  assumes "reflector_ok c r" "sint (verifyInterval r) \<le> 0" "senderStates r k = Some st" "pairCount st \<ge> 2" "nonce st = 0"
    and "\<forall>e \<in> set es. good_event e \<and> (\<forall>ks. e \<noteq> Reload ks)"
    and "snd (handle c d (exec c es r)) = Sent b to" "UnmarshalReplyPacket b = Ok rep" "SenderPubkey (Probe rep) = k"
  shows "\<not> Challenged rep \<and> (\<exists>prt. to = SockaddrInet4 prt (pairSourceIP st))"
proof -
  have "parked c k (pairSourceIP st) r" using assms by (auto simp: parked_def)
  then have I: "parked c k (pairSourceIP st) (exec c es r)"
    by (rule reflector_run.run_invariant) (use assms(6) in \<open>auto intro: parked_step\<close>)
  then have ok: "reflector_ok c (exec c es r)" by (simp add: parked_def)
  from ok assms(7) show ?thesis
  proof (cases rule: sent_stepped)
    case (stepped p now st0 prt addr st2 since ch rep')
    have [simp]: "rep' = rep" using stepped(13) assms(8) by simp
    have "SenderPubkey p = k" using stepped(15) assms(9) by simp
    with parked_entry [OF I, of now] stepped(3,7,8,11) pair_step_cases [OF stepped(9)] stepped(20) show ?thesis by auto
  qed
qed

definition parked_state :: senderState where
  "parked_state = \<lparr>lastTxTime = sample_time 500, pairCount = 2, pairStart = sample_time 400,
     pairSourceIP = [10, 0, 0, 1], nonce = 0\<rparr>"

definition parked_reflector :: LinuxReflector where
  "parked_reflector = sample_reflector\<lparr>verifyInterval := 0, senderStates := [zeros 32 \<mapsto> parked_state]\<rparr>"

theorem no_interval_no_challenge_witness:
  "\<exists>b rep. snd (handle toy_ed25519 (sample_dg 0 5 1000000) (exec toy_ed25519 [] parked_reflector))
       = Sent b (SockaddrInet4 4000 [10, 0, 0, 1])
     \<and> UnmarshalReplyPacket b = Ok rep \<and> \<not> Challenged rep"
proof -
  let ?d = "sample_dg 0 5 1000000" and ?r = parked_reflector
  have ok: "reflector_ok toy_ed25519 ?r" using sample_reflector_ok by (simp add: parked_reflector_def reflector_ok_def)
  have s: "senderStates ?r (zeros 32) = Some parked_state" "sint (verifyInterval ?r) \<le> 0"
    "pairCount parked_state \<ge> 2" "nonce parked_state = 0"
    by (simp_all add: parked_reflector_def parked_state_def)
  have a: "authorizedKeys ?r (SenderPubkey (sample_probe\<lparr>Sec := 0, Frac := 5\<rparr>)) \<noteq> None"
    by (simp add: parked_reflector_def)
  have l: "\<not> rate_limited ?r t st" for t st by (simp add: rate_limited_def parked_reflector_def)
  have f: "dg_from ?d = SockaddrInet4 4000 [10, 0, 0, 1]" by simp
  have c: "pairSourceIP (current_state ?r (zeros 32)) = [10, 0, 0, 1]" using s(1) by (simp add: current_state_def parked_state_def)
  obtain rep where h: "snd (handle toy_ed25519 ?d ?r) = Sent (reply_bytes rep) (dg_from ?d)"
    "UnmarshalReplyPacket (reply_bytes rep) = Ok rep" "Probe rep = sample_probe\<lparr>Sec := 0, Frac := 5\<rparr>"
    by (rule handle_answer [OF ok wf_sample_dg a refl l f _ surjective_pairing [THEN trans, OF arg_cong2 [where f = Pair, OF refl surjective_pairing]]])
      (use c in auto)
  from no_interval_no_challenge [OF ok s(2,1,3,4), of "[]" ?d "reply_bytes rep" "dg_from ?d" rep] h
  show ?thesis by auto
qed

lemma unat_Sub:
  shows "0 \<le> time_diff t u \<Longrightarrow> time_diff t u < 2 ^ 63 \<Longrightarrow> int (unat (Sub t u)) = time_diff t u"
    and "time_diff t u < 0 \<Longrightarrow> 2 ^ 63 \<le> unat (Sub t u)"
proof -
  have u: "int (unat (Sub t u)) = sat64 (time_diff t u) mod 2 ^ 64"
    by (simp add: Sub_def uint_word_of_int flip: uint_nat)
  then show "int (unat (Sub t u)) = time_diff t u" if "0 \<le> time_diff t u" "time_diff t u < 2 ^ 63"
    using that by (simp add: sat64_id)
  show "2 ^ 63 \<le> unat (Sub t u)" if "time_diff t u < 0"
  proof -
    have "sat64 (time_diff t u) mod 2 ^ 64 = (sat64 (time_diff t u) + 2 ^ 64) mod 2 ^ 64" by simp
    also have "\<dots> = sat64 (time_diff t u) + 2 ^ 64"
      using that by (intro mod_pos_pos_trivial) (auto simp: sat64_def)
    finally have "int (2 ^ 63) \<le> int (unat (Sub t u))" using u by (simp add: sat64_def)
    then show ?thesis by (simp only: of_nat_le_iff)
  qed
qed

text \<open>
  The interval in a reply to a probe 1 is the receive time minus the time of the
  last reply, as a signed 64-bit number of nanoseconds, and is added to the reference RTT modulo
  \<open>2 ^ 64\<close>. It is exact for times in order; if the clock was stepped back in between, the unsigned field
  holds a value of at least \<open>2 ^ 63\<close>.
\<close>

theorem reply1_interval:
  assumes "reflector_ok c r" "snd (handle c d r) = Sent b to" "UnmarshalReplyPacket b = Ok rep"
    and "now = kernelTimestamp (dg_oob d) (dg_now_rx d)" "st = entry_state r now (SenderPubkey (Probe rep))"
    and "pairCount st \<noteq> 0" "\<not> IsZero (lastTxTime st)" "n = time_diff now (lastTxTime st)"
  shows "RttNs rep = reference_rtt (offsets r) + SinceLastRxNs rep
    \<and> (0 \<le> n \<and> n < 2 ^ 63 \<longrightarrow> int (unat (SinceLastRxNs rep)) = n)
    \<and> (n < 0 \<longrightarrow> 2 ^ 63 \<le> unat (SinceLastRxNs rep))"
  using assms(1,2)
proof (cases rule: sent_stepped)
  case (stepped p now' st' prt addr st2 since ch rep')
  then have e: "rep' = rep" "now' = now" "st' = st" using assms(3,4,5) by auto
  have "SinceLastRxNs rep = Sub now (lastTxTime st)"
    using pair_step_cases [OF stepped(9)] stepped(19) assms(6,7) e by auto
  with unat_Sub [of now "lastTxTime st"] stepped(19,21) assms(6,8) e show ?thesis by auto
qed

definition stepped_reflector :: LinuxReflector where
  "stepped_reflector = sample_reflector\<lparr>senderStates := [zeros 32 \<mapsto>
     \<lparr>lastTxTime = sample_time 500, pairCount = 1, pairStart = sample_time 400, pairSourceIP = [10, 0, 0, 1], nonce = 5\<rparr>]\<rparr>"

text \<open>It answers a probe 1 that seems to arrive one nanosecond before the last reply was sent.\<close>

lemma stepped_answer:
  obtains rep where
    "snd (handle toy_ed25519 (sample_dg 0 5 499) stepped_reflector) = Sent (reply_bytes rep) (SockaddrInet4 4000 [10, 0, 0, 1])"
    "UnmarshalReplyPacket (reply_bytes rep) = Ok rep" "SenderPubkey (Probe rep) = zeros 32" "reflector_ok toy_ed25519 stepped_reflector"
    "wf_reply rep"
    "pairCount (entry_state stepped_reflector (sample_time 499) (zeros 32)) = 1"
    "lastTxTime (entry_state stepped_reflector (sample_time 499) (zeros 32)) = sample_time 500"
    "time_diff (sample_time 499) (sample_time 500) = - 1" "\<not> IsZero (sample_time 500)"
proof -
  let ?d = "sample_dg 0 5 499" and ?r = stepped_reflector and ?p = "sample_probe\<lparr>Sec := 0, Frac := 5\<rparr>"
  have ok: "reflector_ok toy_ed25519 ?r" using sample_reflector_ok by (simp add: stepped_reflector_def reflector_ok_def)
  have a: "authorizedKeys ?r (SenderPubkey ?p) \<noteq> None" by (simp add: stepped_reflector_def)
  have cur: "current_state ?r (zeros 32) =
     \<lparr>lastTxTime = sample_time 500, pairCount = 1, pairStart = sample_time 400, pairSourceIP = [10, 0, 0, 1], nonce = 5\<rparr>"
    by (simp add: stepped_reflector_def current_state_def)
  have diff: "time_diff (sample_time 499) (sample_time 500) = - 1" "\<not> IsZero (sample_time 500)"
    by (simp_all add: sample_time_def time_diff_def IsZero_def)
  have ent: "entry_state ?r (sample_time 499) (zeros 32) = current_state ?r (zeros 32)"
    using diff by (simp add: entry_state_def cur window_reset_def stale_reset_def sint_Sub sat64_def stalePairTimeout_def)
  have l: "\<not> rate_limited ?r t (current_state ?r (SenderPubkey ?p))" for t by (simp add: rate_limited_def cur)
  have f: "dg_from ?d = SockaddrInet4 4000 [10, 0, 0, 1]" by simp
  obtain st2 since ch where ps: "pair_step (sample_time 499) (dg_random ?d) ?p
     (entry_state ?r (sample_time 499) (zeros 32)\<lparr>pairSourceIP := [10, 0, 0, 1]\<rparr>) = (st2, since, ch)"
    by (metis prod_cases3)
  obtain rep where h: "snd (handle toy_ed25519 ?d ?r) = Sent (reply_bytes rep) (dg_from ?d)"
    "UnmarshalReplyPacket (reply_bytes rep) = Ok rep" "Probe rep = ?p" "wf_reply rep"
    by (rule handle_answer [OF ok wf_sample_dg a refl l f]) (use ps cur in auto)
  from h ok cur ent diff show thesis by (intro that) simp_all
qed

theorem reply1_interval_witness:
  "\<exists>b rep. snd (handle toy_ed25519 (sample_dg 0 5 499) stepped_reflector) = Sent b (SockaddrInet4 4000 [10, 0, 0, 1])
     \<and> UnmarshalReplyPacket b = Ok rep \<and> 2 ^ 63 \<le> unat (SinceLastRxNs rep)"
proof -
  obtain rep where h: "snd (handle toy_ed25519 (sample_dg 0 5 499) stepped_reflector) = Sent (reply_bytes rep) (SockaddrInet4 4000 [10, 0, 0, 1])"
    "UnmarshalReplyPacket (reply_bytes rep) = Ok rep" "SenderPubkey (Probe rep) = zeros 32" "reflector_ok toy_ed25519 stepped_reflector"
    "pairCount (entry_state stepped_reflector (sample_time 499) (zeros 32)) = 1"
    "lastTxTime (entry_state stepped_reflector (sample_time 499) (zeros 32)) = sample_time 500"
    "time_diff (sample_time 499) (sample_time 500) = - 1" "\<not> IsZero (sample_time 500)"
    by (rule stepped_answer)
  from reply1_interval [OF h(4,1,2) refl refl] h show ?thesis by auto
qed

text \<open>
  Whichever system call fails, an unsuccessful constructor leaves no
  file descriptor open; a successful one owns exactly the socket and the epoll descriptor, and starts
  with the given keys, no sender states and no offsets.
\<close>

theorem NewLinuxReflector_descriptors:
  "case NewLinuxReflector env tmo s g ks iv of
     (Inl e, fds) \<Rightarrow> fds = {}
   | (Inr r, fds) \<Rightarrow> 
       se_socket env = Inr (fd r) \<and> se_epoll_create env = Inr (epfd r) \<and> fds = {fd r, epfd r}
       \<and> dom (authorizedKeys r) = set ks \<and> senderStates r = Map.empty \<and> offsets r = [] \<and> verifyInterval r = iv
       \<and> \<not> shutdown r \<and> \<not> closed r"
proof -
  have "dom (store_keys ks Map.empty) = set ks" using store_keys_dom [of ks Map.empty] by (auto simp: dom_def)
  then show ?thesis
    by (auto simp: NewLinuxReflector_def Let_def split: option.splits sum.splits)
qed

end
