(* ===== verification/Go_Text.thy ===== *)
theory Go_Text
  imports Go_Prelude
begin

text \<open>
  The parts of Go's library for text that the program relies on, on byte strings: white space and
  fields (\<open>strings\<close>), lines (\<open>bufio.Scanner\<close>), hexadecimal and base64 (\<open>encoding\<close>), and the decoding of
  a JSON document into a byte slice (\<open>encoding/json\<close>).
\<close>

section \<open>White space\<close>

text \<open>
  The number of bytes of a white-space character at the front, 0 when there is none: the characters
  of \<open>unicode.IsSpace\<close> in their UTF-8 encoding. A lead byte of UTF-8 is never inside another
  character, so scanning bytes and scanning characters find the same places.
\<close>

fun space_len :: "bytes \<Rightarrow> nat" where
  "space_len [] = 0"
| "space_len (a # s) =
     (if a \<in> {9, 10, 11, 12, 13, 32} then 1
      else case s of
        [] \<Rightarrow> 0
      | b # s' \<Rightarrow>
          if a = 0xC2 \<and> b \<in> {0x85, 0xA0} then 2
          else case s' of
            [] \<Rightarrow> 0
          | c # _ \<Rightarrow>
              if a = 0xE1 \<and> b = 0x9A \<and> c = 0x80
                 \<or> a = 0xE2 \<and> b = 0x80 \<and> (0x80 \<le> c \<and> c \<le> 0x8A \<or> c \<in> {0xA8, 0xA9, 0xAF})
                 \<or> a = 0xE2 \<and> b = 0x81 \<and> c = 0x9F
                 \<or> a = 0xE3 \<and> b = 0x80 \<and> c = 0x80
              then 3 else 0)"

text \<open>The same at the end of the string.\<close>

definition space_suffix_len :: "bytes \<Rightarrow> nat" where
  "space_suffix_len s =
     (let n = length s in
      if n \<ge> 1 \<and> space_len (drop (n - 1) s) = 1 then 1
      else if n \<ge> 2 \<and> space_len (drop (n - 2) s) = 2 then 2
      else if n \<ge> 3 \<and> space_len (drop (n - 3) s) = 3 then 3 else 0)"

lemma space_len_le: "space_len s \<le> length s"
  by (induction s rule: space_len.induct) (auto split: list.splits)

lemma space_len_drop: "space_len s \<noteq> 0 \<Longrightarrow> length s - space_len s < length s"
  by (cases s) auto

lemma space_suffix_len_le: "space_suffix_len s \<le> length s"
  by (simp add: space_suffix_len_def Let_def)

lemma space_suffix_len_drop: "0 < space_suffix_len s \<Longrightarrow> length s - space_suffix_len s < length s"
  using space_suffix_len_le [of s] by linarith

function trim_left :: "bytes \<Rightarrow> bytes" where
  "trim_left s = (if space_len s = 0 then s else trim_left (drop (space_len s) s))"
  by pat_completeness auto
termination
  by (relation "measure length") (simp_all add: space_len_drop)

function trim_right :: "bytes \<Rightarrow> bytes" where
  "trim_right s = (if space_suffix_len s = 0 then s else trim_right (take (length s - space_suffix_len s) s))"
  by pat_completeness auto
termination
  by (relation "measure length") (simp_all add: space_suffix_len_drop)

declare trim_left.simps [simp del] trim_right.simps [simp del]

definition TrimSpace :: "bytes \<Rightarrow> bytes" where
  "TrimSpace s = trim_right (trim_left s)"

text \<open>\<open>strings.Fields\<close>: the maximal runs without white space. \<open>cur\<close> is the field read so far.\<close>

function fields_from :: "bytes \<Rightarrow> bytes \<Rightarrow> bytes list" where
  "fields_from cur s =
     (if s = [] then (if cur = [] then [] else [cur])
      else if space_len s = 0 then fields_from (cur @ [hd s]) (tl s)
      else (if cur = [] then [] else [cur]) @ fields_from [] (drop (space_len s) s))"
  by pat_completeness auto
termination
  by (relation "measure (length \<circ> snd)") (simp_all add: space_len_drop)

declare fields_from.simps [simp del]

definition Fields :: "bytes \<Rightarrow> bytes list" where
  "Fields s = fields_from [] s"

section \<open>Lines\<close>

text \<open>
  \<open>bufio.Scanner\<close> with \<open>ScanLines\<close>: the lines without their line end (\<open>\n\<close> or \<open>\r\n\<close>), and whether the
  scan stopped because a line does not fit into the buffer of \<open>MaxScanTokenSize\<close> bytes.
\<close>

definition MaxScanTokenSize :: nat where "MaxScanTokenSize = 65536"

definition dropCR :: "bytes \<Rightarrow> bytes" where
  "dropCR l = (if l \<noteq> [] \<and> last l = 13 then butlast l else l)"

function scan_lines :: "bytes \<Rightarrow> bytes list \<times> bool" where
  "scan_lines data =
     (if data = [] then ([], False)
      else let l = takeWhile (\<lambda>b. b \<noteq> 10) data in
        if length l \<ge> MaxScanTokenSize then ([], True)
        else case scan_lines (drop (Suc (length l)) data) of (ls, long) \<Rightarrow> (dropCR l # ls, long))"
  by pat_completeness auto
termination
  by (relation "measure length") auto

declare scan_lines.simps [simp del]

section \<open>Hexadecimal\<close>

definition hex_digit :: "byte \<Rightarrow> byte" where
  "hex_digit v = (if v < 10 then 48 + v else 87 + v)"

definition hex_EncodeToString :: "bytes \<Rightarrow> bytes" where
  "hex_EncodeToString bs = concat (map (\<lambda>b. [hex_digit (drop_bit 4 b), hex_digit (b AND 0x0F)]) bs)"

definition reverseHex :: "byte \<Rightarrow> byte option" where
  "reverseHex c = (if 48 \<le> c \<and> c \<le> 57 then Some (c - 48)
     else if 97 \<le> c \<and> c \<le> 102 then Some (c - 87)
     else if 65 \<le> c \<and> c \<le> 70 then Some (c - 55) else None)"

datatype hex_error = InvalidByteError byte | ErrLength

fun hex_DecodeString :: "bytes \<Rightarrow> hex_error + bytes" where
  "hex_DecodeString [] = Inr []"
| "hex_DecodeString [p] = (case reverseHex p of None \<Rightarrow> Inl (InvalidByteError p) | Some _ \<Rightarrow> Inl ErrLength)"
| "hex_DecodeString (p # q # s) =
     (case reverseHex p of None \<Rightarrow> Inl (InvalidByteError p)
      | Some a \<Rightarrow> case reverseHex q of None \<Rightarrow> Inl (InvalidByteError q)
        | Some b \<Rightarrow> case hex_DecodeString s of Inl e \<Rightarrow> Inl e | Inr r \<Rightarrow> Inr ((push_bit 4 a OR b) # r))"

section \<open>Base64\<close>

definition base64_digit :: "nat \<Rightarrow> byte" where
  "base64_digit v = (if v < 26 then word_of_nat (65 + v) else if v < 52 then word_of_nat (71 + v)
     else if v < 62 then word_of_nat (v - 4) else if v = 62 then 43 else 47)"

definition base64_value :: "byte \<Rightarrow> nat option" where
  "base64_value c = (let n = unat c in
     if 65 \<le> n \<and> n \<le> 90 then Some (n - 65) else if 97 \<le> n \<and> n \<le> 122 then Some (n - 71)
     else if 48 \<le> n \<and> n \<le> 57 then Some (n + 4) else if n = 43 then Some 62 else if n = 47 then Some 63 else None)"

text \<open>\<open>base64.StdEncoding\<close>: three bytes make four digits, the last group is padded with \<open>=\<close> (61).\<close>

fun base64_encode :: "bytes \<Rightarrow> bytes" where
  "base64_encode [] = []"
| "base64_encode [a] = (let n = unat a * 65536 in
     [base64_digit (n div 262144), base64_digit (n div 4096 mod 64), 61, 61])"
| "base64_encode [a, b] = (let n = unat a * 65536 + unat b * 256 in
     [base64_digit (n div 262144), base64_digit (n div 4096 mod 64), base64_digit (n div 64 mod 64), 61])"
| "base64_encode (a # b # c # s) = (let n = unat a * 65536 + unat b * 256 + unat c in
     base64_digit (n div 262144) # base64_digit (n div 4096 mod 64) # base64_digit (n div 64 mod 64)
       # base64_digit (n mod 64) # base64_encode s)"

text \<open>
  Decoding: groups of four digits, padding only in the last group, the bits that padding leaves over are
  not checked (\<open>StdEncoding\<close> is not strict). Line ends have been removed before.
\<close>

fun base64_groups :: "bytes \<Rightarrow> bytes option" where
  "base64_groups [] = Some []"
| "base64_groups (w # x # y # z # s) =
     (case (base64_value w, base64_value x) of
        (Some a, Some b) \<Rightarrow>
          (if y = 61 then
             (if z = 61 \<and> s = [] then Some [word_of_nat ((a * 262144 + b * 4096) div 65536)] else None)
           else case base64_value y of
             None \<Rightarrow> None
           | Some c \<Rightarrow>
               if z = 61 then
                 (if s = [] then let n = a * 262144 + b * 4096 + c * 64 in
                    Some [word_of_nat (n div 65536), word_of_nat (n div 256 mod 256)] else None)
               else case (base64_value z, base64_groups s) of
                 (Some d, Some r) \<Rightarrow> let n = a * 262144 + b * 4096 + c * 64 + d in
                   Some (word_of_nat (n div 65536) # word_of_nat (n div 256 mod 256) # word_of_nat (n mod 256) # r)
               | _ \<Rightarrow> None)
      | _ \<Rightarrow> None)"
| "base64_groups _ = None"

definition base64_decode :: "bytes \<Rightarrow> bytes option" where
  "base64_decode s = base64_groups (filter (\<lambda>b. b \<noteq> 10 \<and> b \<noteq> 13) s)"

section \<open>JSON\<close>

text \<open>
  \<open>json.Unmarshal\<close> into a byte slice: the document is a string, which is base64, or an array of
  numbers from 0 to 255 (an element \<open>null\<close> counts as 0), or \<open>null\<close>. Every other document, well-formed
  or not, is an error (\<open>None\<close>). A character outside ASCII in the string is never base64, so escapes
  are only followed up to there.
\<close>

definition json_space :: "byte \<Rightarrow> bool" where
  "json_space b \<longleftrightarrow> b \<in> {9, 10, 13, 32}"

definition skip_json :: "bytes \<Rightarrow> bytes" where
  "skip_json s = dropWhile json_space s"

text \<open>After the opening quote: the characters of the string and the rest after the closing quote.\<close>

fun json_string :: "bytes \<Rightarrow> (bytes \<times> bytes) option" where
  "json_string [] = None"
| "json_string (c # s) =
     (if c = 34 then Some ([], s)
      else if c < 32 then None
      else if c \<noteq> 92 then map_option (\<lambda>(r, t). (c # r, t)) (json_string s)
      else case s of
        [] \<Rightarrow> None
      | e # s' \<Rightarrow>
          if e \<in> {34, 92, 47} then map_option (\<lambda>(r, t). (e # r, t)) (json_string s')
          else if e = 110 then map_option (\<lambda>(r, t). (10 # r, t)) (json_string s')
          else if e = 114 then map_option (\<lambda>(r, t). (13 # r, t)) (json_string s')
          else if e = 117 then
            (case s' of
               h0 # h1 # h2 # h3 # s'' \<Rightarrow>
                 (case (reverseHex h0, reverseHex h1, reverseHex h2, reverseHex h3) of
                    (Some a, Some b, Some c', Some d) \<Rightarrow>
                      if a = 0 \<and> b = 0 \<and> c' < 8
                      then map_option (\<lambda>(r, t). ((push_bit 4 c' OR d) # r, t)) (json_string s'')
                      else None
                  | _ \<Rightarrow> None)
             | _ \<Rightarrow> None)
          else None)"

text \<open>A number literal without sign, fraction or exponent, at most 255.\<close>

definition json_byte :: "bytes \<Rightarrow> (byte \<times> bytes) option" where
  "json_byte s =
     (let ds = takeWhile (\<lambda>c. 48 \<le> c \<and> c \<le> 57) s;
          rest = drop (length ds) s;
          n = foldl (\<lambda>n d. n * 10 + (unat d - 48)) 0 ds
      in if ds = [] \<or> length ds > 1 \<and> hd ds = 48 \<or> n > 255 then None else Some (word_of_nat n, rest))"

definition json_element :: "bytes \<Rightarrow> (byte \<times> bytes) option" where
  "json_element s = (if take 4 s = [110, 117, 108, 108] then Some (0, drop 4 s) else json_byte s)"

lemma json_element_rest: "json_element s = Some (b, r) \<Longrightarrow> length r < length s"
proof -
  have "length (takeWhile P s) \<le> length s" for P by (rule length_takeWhile_le)
  then show "json_element s = Some (b, r) \<Longrightarrow> length r < length s"
    by (cases s) (auto simp: json_element_def json_byte_def Let_def split: if_splits)
qed

lemma skip_json_le: "length (skip_json s) \<le> length s"
  by (simp add: skip_json_def length_dropWhile_le)

text \<open>The elements of an array, from just before an element.\<close>

function json_elements :: "bytes \<Rightarrow> (bytes \<times> bytes) option" where
  "json_elements s =
     (case json_element (skip_json s) of
        None \<Rightarrow> None
      | Some (b, r) \<Rightarrow>
          (case skip_json r of
             [] \<Rightarrow> None
           | c # r' \<Rightarrow>
               if c = 93 then Some ([b], r')
               else if c = 44 then map_option (\<lambda>(bs, t). (b # bs, t)) (json_elements r')
               else None))"
  by pat_completeness auto
termination
proof (relation "measure length", goal_cases)
  case (2 s x b r c r')
  have "length r' < length (skip_json r)" using 2 by simp
  also have "\<dots> \<le> length r" by (rule skip_json_le)
  also have "\<dots> < length (skip_json s)" using 2 json_element_rest by blast
  also have "\<dots> \<le> length s" by (rule skip_json_le)
  finally show ?case by simp
qed simp

declare json_elements.simps [simp del]

definition json_Unmarshal_bytes :: "bytes \<Rightarrow> bytes option" where
  "json_Unmarshal_bytes data =
     (case skip_json data of
        [] \<Rightarrow> None
      | c # s \<Rightarrow>
          if c = 34 then
            (case json_string s of
               Some (str, rest) \<Rightarrow> if skip_json rest = [] then base64_decode str else None
             | None \<Rightarrow> None)
          else if c = 91 then
            (case skip_json s of
               [] \<Rightarrow> None
             | d # s' \<Rightarrow>
                 (case if d = 93 then Some ([], s') else json_elements s of
                    Some (bs, rest) \<Rightarrow> if skip_json rest = [] then Some bs else None
                  | None \<Rightarrow> None))
          else if take 4 (c # s) = [110, 117, 108, 108] \<and> skip_json (drop 3 s) = [] then Some []
          else None)"

text \<open>\<open>json.Marshal\<close> of a byte slice that is not nil: a base64 string.\<close>

definition json_Marshal_bytes :: "bytes \<Rightarrow> bytes" where
  "json_Marshal_bytes b = 34 # base64_encode b @ [34]"

section \<open>Round trips\<close>

lemma word_in_upt: "(v :: byte) < word_of_nat n \<Longrightarrow> n < 256 \<Longrightarrow> v \<in> word_of_nat ` set [0..<n]"
proof -
  assume a: "v < word_of_nat n" "n < 256"
  then have "unat v < n" by (simp add: word_less_nat_alt unat_of_nat)
  then show ?thesis by (intro image_eqI [of _ _ "unat v"]) simp_all
qed

lemma reverseHex_hex_digit: "(v :: byte) < 16 \<Longrightarrow> reverseHex (hex_digit v) = Some v"
proof -
  have all: "\<forall>w \<in> word_of_nat ` set [0..<16]. reverseHex (hex_digit w) = Some w" by code_simp
  assume "v < 16"
  then have "v \<in> word_of_nat ` set [0..<16]" using word_in_upt [of v 16] by simp
  with all show ?thesis by blast
qed

lemma nibbles: "drop_bit 4 (b :: byte) < 16" "b AND 0x0F < (16 :: byte)" "push_bit 4 (drop_bit 4 b) OR (b AND 0x0F) = b"
proof -
  have m: "(0x0F :: byte) = mask 4" by (simp add: mask_eq_exp_minus_1)
  have "unat b < 256" using unsigned_less [of b, where 'a = nat] by simp
  then show "drop_bit 4 b < 16" by (simp add: word_less_nat_alt unat_div_distrib drop_bit_eq_div less_mult_imp_div_less)
  show "b AND 0x0F < (16 :: byte)" unfolding m word_less_nat_alt by (simp add: take_bit_eq_mod unat_mod_distrib flip: take_bit_eq_mask)
  show "push_bit 4 (drop_bit 4 b) OR (b AND 0x0F) = b"
    unfolding m by (rule bit_word_eqI) (auto simp: bit_simps)
qed

lemma hex_roundtrip: "hex_DecodeString (hex_EncodeToString bs) = Inr bs"
  by (induction bs) (simp_all add: hex_EncodeToString_def reverseHex_hex_digit nibbles)

lemma base64_value_digit: "v < 64 \<Longrightarrow> base64_value (base64_digit v) = Some v \<and> base64_digit v \<noteq> 61 \<and> base64_digit v \<noteq> 10 \<and> base64_digit v \<noteq> 13
   \<and> base64_digit v \<noteq> 34 \<and> base64_digit v \<noteq> 92 \<and> \<not> base64_digit v < 32"
proof -
  have all: "\<forall>v \<in> set [0..<64]. base64_value (base64_digit v) = Some v \<and> base64_digit v \<noteq> 61 \<and> base64_digit v \<noteq> 10 \<and> base64_digit v \<noteq> 13
   \<and> base64_digit v \<noteq> 34 \<and> base64_digit v \<noteq> 92 \<and> \<not> base64_digit v < 32" by code_simp
  assume "v < 64"
  with all show ?thesis by simp
qed

lemma radix64:
  "q1 * 64 + r0 = n \<Longrightarrow> q2 * 64 + r1 = q1 \<Longrightarrow> q3 * 64 + r2 = q2 \<Longrightarrow>
   q3 * 262144 + r2 * 4096 + r1 * 64 + r0 = (n :: nat)"
  by simp

lemma sextets: "n div 262144 * 262144 + n div 4096 mod 64 * 4096 + n div 64 mod 64 * 64 + n mod 64 = (n :: nat)"
proof -
  have "n div 4096 = n div 64 div 64" "n div 262144 = n div 64 div 64 div 64"
    by (simp_all flip: div_mult2_eq)
  with radix64 [OF div_mult_mod_eq [of n 64] div_mult_mod_eq [of _ 64] div_mult_mod_eq [of _ 64]] show ?thesis by simp
qed

lemma byte_lt: "unat (a :: byte) < 256"
  using unsigned_less [of a, where 'a = nat] by simp

lemma octets:
  fixes a b c :: byte
  defines "n \<equiv> unat a * 65536 + unat b * 256 + unat c"
  shows "n div 262144 < 64" "n div 65536 = unat a" "n div 256 mod 256 = unat b" "n mod 256 = unat c"
proof -
  have n: "n = (unat a * 256 + unat b) * 256 + unat c" by (simp add: n_def)
  have d: "n div 256 = unat a * 256 + unat b" unfolding n using byte_lt [of c] by simp
  have "n div 65536 = n div 256 div 256" by (simp flip: div_mult2_eq)
  also have "\<dots> = unat a" unfolding d using byte_lt [of b] by simp
  finally show a: "n div 65536 = unat a" .
  show "n div 256 mod 256 = unat b" unfolding d using byte_lt [of b] by simp
  show "n mod 256 = unat c" unfolding n by (simp only: mod_mult_self3) (simp add: byte_lt)
  have "n div 262144 = n div 65536 div 4" by (simp flip: div_mult2_eq)
  then show "n div 262144 < 64" using a byte_lt [of a] by (simp add: div_less_iff_less_mult)
qed

lemma base64_groups_encode: "base64_groups (base64_encode bs) = Some bs"
proof (induction bs rule: base64_encode.induct)
  case (2 a)
  define n where "n = unat a * 65536"
  have o: "n div 262144 < 64" "n div 65536 = unat a"
    using octets [of a 0 0] by (simp_all only: n_def unat_0 add_0_right mult_0)
  have "n div 64 mod 64 = 0" "n mod 64 = 0" by (simp_all add: n_def)
  with sextets [of n] have m: "n div 262144 * 262144 + n div 4096 mod 64 * 4096 = n" by simp
  show ?case
    using o m by (simp add: Let_def flip: n_def) (simp add: base64_value_digit)
next
  case (3 a b)
  define n where "n = unat a * 65536 + unat b * 256"
  have o: "n div 262144 < 64" "n div 65536 = unat a" "n div 256 mod 256 = unat b"
    using octets [of a b 0] by (simp_all only: n_def unat_0 add_0_right)
  have "n mod 64 = 0" by (simp add: n_def mod_mult_left_eq)
  with sextets [of n] have m: "n div 262144 * 262144 + n div 4096 mod 64 * 4096 + n div 64 mod 64 * 64 = n" by simp
  show ?case
    using o m by (simp add: Let_def flip: n_def) (simp add: base64_value_digit Let_def)
next
  case (4 a b c s)
  define n where "n = unat a * 65536 + unat b * 256 + unat c"
  note o = octets [of a b c, folded n_def]
  show ?case
    using o sextets [of n] "4.IH" by (simp add: Let_def flip: n_def) (simp add: base64_value_digit Let_def)
qed simp

definition plain_char :: "byte \<Rightarrow> bool" where
  "plain_char c \<longleftrightarrow> c \<noteq> 34 \<and> c \<noteq> 92 \<and> \<not> c < 32 \<and> c \<noteq> 10 \<and> c \<noteq> 13"

lemma plain_digit: "v < 64 \<Longrightarrow> plain_char (base64_digit v)" "plain_char 61"
  using base64_value_digit [of v] by (auto simp: plain_char_def)

lemma base64_encode_plain: "c \<in> set (base64_encode bs) \<Longrightarrow> plain_char c"
proof (induction bs rule: base64_encode.induct)
  case (2 a)
  then show ?case using octets(1) [of a 0 0] by (auto simp: Let_def plain_digit)
next
  case (3 a b)
  then show ?case using octets(1) [of a b 0] by (auto simp: Let_def plain_digit)
next
  case (4 a b c s)
  then show ?case using octets(1) [of a b c] by (auto simp: Let_def plain_digit)
qed simp

lemma base64_roundtrip: "base64_decode (base64_encode bs) = Some bs"
proof -
  have "filter (\<lambda>b. b \<noteq> 10 \<and> b \<noteq> 13) (base64_encode bs) = base64_encode bs"
    using base64_encode_plain [of _ bs] by (auto simp: filter_id_conv plain_char_def)
  then show ?thesis by (simp add: base64_decode_def base64_groups_encode)
qed

lemma json_string_plain: "\<forall>c \<in> set s. plain_char c \<Longrightarrow> json_string (s @ 34 # t) = Some (s, t)"
  by (induction s) (auto simp: plain_char_def)

lemma json_roundtrip: "json_Unmarshal_bytes (json_Marshal_bytes bs) = Some bs"
  using json_string_plain [of "base64_encode bs" "[]"] base64_encode_plain [of _ bs]
  by (simp add: json_Unmarshal_bytes_def json_Marshal_bytes_def skip_json_def json_space_def base64_roundtrip)

section \<open>White space and fields\<close>

text \<open>Text without white space is left alone.\<close>

definition spaceless :: "bytes \<Rightarrow> bool" where
  "spaceless s \<longleftrightarrow> (\<forall>c \<in> set s. 33 \<le> c \<and> c < 128)"

lemma spaceless_len:
  assumes "33 \<le> c" "c < (128 :: byte)"
  shows "space_len (c # s) = 0"
proof -
  have "c \<notin> {9, 10, 11, 12, 13, 32}" "c \<noteq> 0xC2" "c \<noteq> 0xE1" "c \<noteq> 0xE2" "c \<noteq> 0xE3" using assms by auto
  then show ?thesis by (auto split: list.splits)
qed

lemma trim_spaceless:
  assumes "spaceless s"
  shows "TrimSpace s = s"
proof -
  have l: "space_len (drop k s) = 0" for k
  proof (cases "drop k s")
    case (Cons c t)
    then have "c \<in> set s" by (metis in_set_dropD list.set_intros(1))
    with assms Cons show ?thesis by (simp add: spaceless_def spaceless_len del: space_len.simps)
  qed simp
  have "trim_left s = s" using l [of 0] by (simp add: trim_left.simps [of s])
  moreover have "trim_right s = s" by (subst trim_right.simps) (simp add: space_suffix_len_def Let_def l)
  ultimately show ?thesis by (simp add: TrimSpace_def)
qed

lemma hex_spaceless: "spaceless (hex_EncodeToString bs)"
proof -
  have all: "\<forall>w \<in> word_of_nat ` set [0..<16]. 33 \<le> hex_digit w \<and> hex_digit w < 128" by code_simp
  have "33 \<le> hex_digit v \<and> hex_digit v < 128" if "v < 16" for v
  proof -
    from that have "v \<in> word_of_nat ` set [0..<16]" using word_in_upt [of v 16] by simp
    with all show ?thesis by blast
  qed
  then show ?thesis by (auto simp: spaceless_def hex_EncodeToString_def nibbles)
qed

text \<open>After trimming, a text that is not empty has a first field.\<close>

lemma trim_left_head: "space_len (trim_left s) = 0"
  by (induction s rule: trim_left.induct) (subst trim_left.simps, simp)

lemma fields_from_ne: "cur \<noteq> [] \<Longrightarrow> fields_from cur s \<noteq> []"
proof (induction cur s rule: fields_from.induct)
  case (1 cur s)
  then show ?case by (subst fields_from.simps) auto
qed

lemma Fields_ne: "s \<noteq> [] \<Longrightarrow> space_len s = 0 \<Longrightarrow> Fields s \<noteq> []"
  unfolding Fields_def by (subst fields_from.simps) (simp add: fields_from_ne)

lemma space_len_take: "space_len s = 0 \<Longrightarrow> space_len (take k s) = 0"
  by (cases "(k, s)" rule: prod.exhaust; cases s; cases k) (auto simp: take_Cons split: list.splits nat.splits if_splits)

lemma trim_right_head: "space_len s = 0 \<Longrightarrow> space_len (trim_right s) = 0"
proof (induction s rule: trim_right.induct)
  case (1 s)
  then show ?case by (subst trim_right.simps) (simp add: space_len_take)
qed

lemma Fields_TrimSpace: "TrimSpace s \<noteq> [] \<Longrightarrow> Fields (TrimSpace s) \<noteq> []"
  by (rule Fields_ne) (simp_all add: TrimSpace_def trim_right_head trim_left_head)

end
