(* ===== verification/Keys.thy ===== *)
theory Keys
  imports Signer Go_Text
begin

text \<open>
  Identity material (\<open>internal/keys/keys.go\<close>): key files, the text form of public keys, and the allowlist
  of senders. Text is a byte string. Files are a map from paths to contents and permissions; what the
  operating system may answer instead (a failing \<open>stat\<close>, a failing write) is an argument.
\<close>

section \<open>Public keys as text\<close>

datatype key_error =
    BadHex bytes hex_error
  | BadPublicLength bytes nat
  | AtLine nat key_error
  | OpenAllowlist
  | ReadAllowlist
  | TokenTooLong
  | ReadKeyFile
  | ParseKeyFile
  | BadPrivateLength nat
  | KeyFileExists
  | StatKeyFile
  | GenerateKeyError
  | CreateKeyDirectory
  | WriteKeyFile

definition PublicKeySize :: nat where "PublicKeySize = 32"
definition PrivateKeySize :: nat where "PrivateKeySize = 64"

definition PublicOf :: "bytes \<Rightarrow> (key_error, bytes) result" where
  "PublicOf priv = bind_r (PrivateKey_Public priv) (\<lambda>pub. Ok (go_copy (zeros 32) pub))"

definition Format :: "bytes \<Rightarrow> bytes" where
  "Format pub = hex_EncodeToString pub"

definition Parse :: "bytes \<Rightarrow> (key_error, bytes) result" where
  "Parse s =
     (case hex_DecodeString (TrimSpace s) of
        Inl e \<Rightarrow> Err (BadHex s e)
      | Inr raw \<Rightarrow>
          if length raw \<noteq> PublicKeySize then Err (BadPublicLength s (length raw))
          else Ok (go_copy (zeros 32) raw))"

section \<open>The allowlist\<close>

text \<open>The first field of a line is the key.\<close>

definition keyFromLine :: "bytes \<Rightarrow> (key_error, bytes) result" where
  "keyFromLine text = bind_r (index 0 (Fields text)) Parse"

text \<open>A line without its comment and outer white space.\<close>

definition line_text :: "bytes \<Rightarrow> bytes" where
  "line_text l = TrimSpace (takeWhile (\<lambda>b. b \<noteq> 35) l)"

fun load_lines :: "nat \<Rightarrow> (bytes \<rightharpoonup> unit) \<Rightarrow> bytes list \<Rightarrow> bytes list \<Rightarrow> (key_error, bytes list) result" where
  "load_lines line seen out [] = Ok out"
| "load_lines line seen out (l # ls) =
     (let text = line_text l in
      if text = [] then load_lines (Suc line) seen out ls
      else case keyFromLine text of
        Panic \<Rightarrow> Panic
      | Err e \<Rightarrow> Err (AtLine line e)
      | Ok pub \<Rightarrow>
          if seen pub \<noteq> None then load_lines (Suc line) seen out ls
          else load_lines (Suc line) (seen(pub \<mapsto> ())) (out @ [pub]) ls)"

text \<open>The file cannot be opened, or yields data and then the end of the file or a read error.\<close>

datatype allow_file = CannotOpen | FileData bytes bool

definition LoadAllowlist :: "allow_file \<Rightarrow> (key_error, bytes list) result" where
  "LoadAllowlist f =
     (case f of
        CannotOpen \<Rightarrow> Err OpenAllowlist
      | FileData data readError \<Rightarrow>
          (case scan_lines data of (ls, long) \<Rightarrow>
             bind_r (load_lines 1 Map.empty [] ls) (\<lambda>out.
               if long then Err TokenTooLong else if readError then Err ReadAllowlist else Ok out)))"

section \<open>Key files\<close>

type_synonym files = "string \<rightharpoonup> bytes \<times> nat"

definition Load :: "bool \<Rightarrow> string \<Rightarrow> files \<Rightarrow> (key_error, bytes) result" where
  "Load readError path fs =
     (case if readError then None else fs path of
        None \<Rightarrow> Err ReadKeyFile
      | Some (data, _) \<Rightarrow>
          (case json_Unmarshal_bytes data of
             None \<Rightarrow> Err ParseKeyFile
           | Some raw \<Rightarrow> if length raw \<noteq> PrivateKeySize then Err (BadPrivateLength (length raw)) else Ok raw))"

text \<open>
  What the operating system answers while a key is generated: whether \<open>stat\<close> fails for another reason
  than a missing file, the random seed, whether the directory cannot be made, and whether writing
  fails, with what is left in the file then.
\<close>

datatype write_result = Written | WriteFailed "bytes option"

record gen_env =
  ge_stat_error :: bool
  ge_random :: "bytes option"
  ge_mkdir_error :: bool
  ge_write :: write_result

definition key_mode :: nat where "key_mode = 0x180"

text \<open>
  Whether \<open>filepath.Dir(path)\<close> is a directory other than the current one: the part of the path before its
  last slash, cleaned of empty and \<open>.\<close> elements and of \<open>..\<close> elements with what they undo, is not empty.
\<close>

fun split_slash :: "string \<Rightarrow> string \<Rightarrow> string list" where
  "split_slash cur [] = [cur]"
| "split_slash cur (ch # s) = (if ch = CHR ''/'' then cur # split_slash [] s else split_slash (cur @ [ch]) s)"

fun clean_elements :: "bool \<Rightarrow> string list \<Rightarrow> string list \<Rightarrow> string list" where
  "clean_elements rooted out [] = out"
| "clean_elements rooted out (e # es) =
     (if e = '''' \<or> e = ''.'' then clean_elements rooted out es
      else if e = ''..'' then
        (if out \<noteq> [] \<and> last out \<noteq> ''..'' then clean_elements rooted (butlast out) es
         else if rooted then clean_elements rooted out es
         else clean_elements rooted (out @ [e]) es)
      else clean_elements rooted (out @ [e]) es)"

definition names_dir :: "string \<Rightarrow> bool" where
  "names_dir path =
     (let rooted = (path \<noteq> [] \<and> hd path = CHR ''/'')
      in rooted \<or> clean_elements rooted [] (butlast (split_slash [] path)) \<noteq> [])"

definition Generate :: "ed25519 \<Rightarrow> gen_env \<Rightarrow> string \<Rightarrow> files \<Rightarrow> files \<times> (key_error, bytes) result" where
  "Generate c env path fs =
     (if ge_stat_error env then (fs, Err StatKeyFile)
      else if fs path \<noteq> None then (fs, Err KeyFileExists)
      else case ge_random env of
        None \<Rightarrow> (fs, Err GenerateKeyError)
      | Some seed \<Rightarrow>
          let priv = ed_NewKeyFromSeed c seed; encoded = json_Marshal_bytes priv in
          if names_dir path \<and> ge_mkdir_error env then (fs, Err CreateKeyDirectory)
          else case ge_write env of
            WriteFailed None \<Rightarrow> (fs, Err WriteKeyFile)
          | WriteFailed (Some part) \<Rightarrow> (fs(path \<mapsto> (part, key_mode)), Err WriteKeyFile)
          | Written \<Rightarrow> (fs(path \<mapsto> (encoded, key_mode)), Ok priv))"

text \<open>The flag tells whether a key was generated.\<close>

definition LoadOrGenerate ::
    "ed25519 \<Rightarrow> gen_env \<Rightarrow> bool \<Rightarrow> string \<Rightarrow> files \<Rightarrow> files \<times> bool \<times> (key_error, bytes) result" where
  "LoadOrGenerate c env readError path fs =
     (if \<not> ge_stat_error env \<and> fs path = None
      then (case Generate c env path fs of (fs', r) \<Rightarrow> (fs', True, r))
      else (fs, False, Load readError path fs))"

section \<open>Text forms\<close>

definition hex_lower :: "byte \<Rightarrow> byte" where
  "hex_lower c = (if 65 \<le> c \<and> c \<le> 70 then c + 32 else c)"

lemma reverseHex_Some: "reverseHex c = Some a \<Longrightarrow> a < 16 \<and> hex_digit a = hex_lower c"
proof -
  have all: "\<forall>w \<in> word_of_nat ` set [0..<255]. case reverseHex w of None \<Rightarrow> True | Some a \<Rightarrow> a < 16 \<and> hex_digit a = hex_lower w" by code_simp
  assume h: "reverseHex c = Some a"
  then have "c < 255" by (auto simp: reverseHex_def word_le_nat_alt word_less_nat_alt split: if_splits)
  then have "c \<in> word_of_nat ` set [0..<255]" using word_in_upt [of c 255] by simp
  with all have "case reverseHex c of None \<Rightarrow> True | Some a \<Rightarrow> a < 16 \<and> hex_digit a = hex_lower c" by blast
  with h show ?thesis by simp
qed

lemma nibble_join:
  assumes "(a :: byte) < 16" "b < 16"
  shows "drop_bit 4 (push_bit 4 a OR b) = a" "(push_bit 4 a OR b) AND 0x0F = b"
proof -
  have all: "\<forall>a \<in> word_of_nat ` set [0..<16]. \<forall>b \<in> word_of_nat ` set [0..<16].
     drop_bit 4 (push_bit 4 a OR b) = (a :: byte) \<and> (push_bit 4 a OR b) AND 0x0F = b" by code_simp
  have "a \<in> word_of_nat ` set [0..<16]" "b \<in> word_of_nat ` set [0..<16]"
    using assms word_in_upt [of a 16] word_in_upt [of b 16] by simp_all
  with all show "drop_bit 4 (push_bit 4 a OR b) = a" "(push_bit 4 a OR b) AND 0x0F = b" by blast+
qed

lemma hex_decode_encode: "hex_DecodeString s = Inr bs \<Longrightarrow> hex_EncodeToString bs = map hex_lower s"
proof (induction s arbitrary: bs rule: hex_DecodeString.induct)
  case (3 p q s)
  then obtain a b r where d: "reverseHex p = Some a" "reverseHex q = Some b" "hex_DecodeString s = Inr r"
    "bs = (push_bit 4 a OR b) # r"
    by (auto split: option.splits sum.splits)
  note a = reverseHex_Some [OF d(1)] and b = reverseHex_Some [OF d(2)]
  have "hex_EncodeToString r = map hex_lower s" using 3(1) d by blast
  with d(4) a b nibble_join [of a b] show ?case by (simp add: hex_EncodeToString_def)
qed (auto simp: hex_EncodeToString_def split: option.splits)

lemma Parse_Format: "length pub = 32 \<Longrightarrow> Parse (Format pub) = Ok pub"
  by (simp add: Parse_def Format_def trim_spaceless hex_spaceless hex_roundtrip PublicKeySize_def)

lemma Parse_Ok: "Parse s = Ok pub \<Longrightarrow> length pub = 32 \<and> map hex_lower (TrimSpace s) = Format pub"
  by (auto simp: Parse_def Format_def PublicKeySize_def hex_decode_encode split: sum.splits if_splits)

lemma Parse_no_panic: "Parse s \<noteq> Panic"
  by (simp add: Parse_def split: sum.splits)

lemma keyFromLine_no_panic: "keyFromLine (TrimSpace l) \<noteq> Panic" if "TrimSpace l \<noteq> []"
  using Fields_TrimSpace [OF that] Parse_no_panic
  by (cases "Fields (TrimSpace l)") (auto simp: keyFromLine_def bind_r_eq_Panic index_0)

section \<open>The allowlist loop\<close>

definition line_keys :: "bytes list \<Rightarrow> bytes set" where
  "line_keys ls = {k. \<exists>l \<in> set ls. line_text l \<noteq> [] \<and> keyFromLine (line_text l) = Ok k}"

definition good_line :: "bytes \<Rightarrow> bool" where
  "good_line l \<longleftrightarrow> line_text l = [] \<or> (\<exists>k. keyFromLine (line_text l) = Ok k)"

lemma load_lines_cases:
  assumes "\<forall>k. seen k \<noteq> None \<longleftrightarrow> k \<in> set out" "distinct out"
  shows "(\<exists>ks. load_lines line seen out ls = Ok ks \<and> distinct ks \<and> set ks = set out \<union> line_keys ls \<and> (\<forall>l \<in> set ls. good_line l))
    \<or> (\<exists>i e. i < length ls \<and> load_lines line seen out ls = Err (AtLine (line + i) e) \<and> line_text (ls ! i) \<noteq> []
         \<and> keyFromLine (line_text (ls ! i)) = Err e \<and> (\<forall>l \<in> set (take i ls). good_line l))"
  using assms
proof (induction ls arbitrary: line seen out)
  case Nil
  then show ?case by (simp add: line_keys_def)
next
  case (Cons l ls)
  let ?t = "line_text l"
  have lift: ?case if "load_lines line seen out (l # ls) = load_lines (Suc line) seen' out' ls" "good_line l"
      "\<forall>k. seen' k \<noteq> None \<longleftrightarrow> k \<in> set out'" "distinct out'" "set out' \<union> line_keys ls = set out \<union> line_keys (l # ls)" for seen' out'
    using Cons.IH [OF that(3,4), of "Suc line"]
  proof (elim disjE exE conjE)
    fix ks assume "load_lines (Suc line) seen' out' ls = Ok ks" "distinct ks" "set ks = set out' \<union> line_keys ls" "\<forall>l \<in> set ls. good_line l"
    with that show ?case by simp
  next
    fix i e assume "i < length ls" "load_lines (Suc line) seen' out' ls = Err (AtLine (Suc line + i) e)" "line_text (ls ! i) \<noteq> []"
      "keyFromLine (line_text (ls ! i)) = Err e" "\<forall>l \<in> set (take i ls). good_line l"
    with that show ?case by (intro disjI2 exI [of _ "Suc i"] exI [of _ e]) simp
  qed
  consider "?t = []" | e where "?t \<noteq> []" "keyFromLine ?t = Err e" | k where "?t \<noteq> []" "keyFromLine ?t = Ok k"
    using keyFromLine_no_panic [of "takeWhile (\<lambda>b. b \<noteq> 35) l", folded line_text_def] by (cases "keyFromLine ?t") auto
  then show ?case
  proof cases
    case 1
    then show ?thesis using Cons.prems by (intro lift) (auto simp: good_line_def line_keys_def)
  next
    case 2
    then show ?thesis by (intro disjI2 exI [of _ 0] exI [of _ e]) simp
  next
    case (3 k)
    show ?thesis
    proof (cases "seen k = None")
      case True
      then have "k \<notin> set out" using Cons.prems(1) by metis
      with True 3 Cons.prems show ?thesis
        by (intro lift [of "seen(k \<mapsto> ())" "out @ [k]"]) (auto simp: good_line_def line_keys_def)
    next
      case False
      with 3 Cons.prems show ?thesis by (intro lift) (auto simp: good_line_def line_keys_def)
    qed
  qed
qed

text \<open>The keys of a decoded line have 32 bytes.\<close>

lemma keyFromLine_length: "keyFromLine t = Ok k \<Longrightarrow> length k = 32"
  by (auto simp: keyFromLine_def bind_r_eq_Ok dest: Parse_Ok)

text \<open>A file with one key per line, as \<open>Format\<close> writes it.\<close>

lemma fields_from_spaceless: "spaceless s \<Longrightarrow> cur @ s \<noteq> [] \<Longrightarrow> fields_from cur s = [cur @ s]"
proof (induction s arbitrary: cur)
  case Nil
  then show ?case by (simp add: fields_from.simps)
next
  case (Cons c s)
  then have "space_len (c # s) = 0" by (intro spaceless_len) (simp_all add: spaceless_def)
  with Cons show ?case by (subst fields_from.simps) (simp add: spaceless_def del: space_len.simps)
qed

lemma Format_line:
  assumes "length k = 32"
  shows "line_text (Format k) = Format k" "keyFromLine (Format k) = Ok k" "Format k \<noteq> []" "length (Format k) = 64"
    "\<forall>b \<in> set (Format k). b \<noteq> 10 \<and> b \<noteq> 13 \<and> b \<noteq> 35"
proof -
  have sp: "spaceless (Format k)" by (simp add: Format_def hex_spaceless)
  show len: "length (Format k) = 64" using assms by (simp add: Format_def hex_EncodeToString_def length_concat comp_def sum_list_triv)
  then show ne: "Format k \<noteq> []" by auto
  have "\<forall>w \<in> word_of_nat ` set [0..<16]. hex_digit w \<noteq> 10 \<and> hex_digit w \<noteq> 13 \<and> hex_digit w \<noteq> 35" by code_simp
  then have d: "hex_digit v \<noteq> 10 \<and> hex_digit v \<noteq> 13 \<and> hex_digit v \<noteq> 35" if "v < 16" for v
    using that word_in_upt [of v 16] by (metis numeral_less_iff of_nat_numeral verit_comp_simplify(1) semiring_norm(76,78))
  show c: "\<forall>b \<in> set (Format k). b \<noteq> 10 \<and> b \<noteq> 13 \<and> b \<noteq> 35"
    using d by (auto simp: Format_def hex_EncodeToString_def nibbles)
  then have tw: "takeWhile (\<lambda>b. b \<noteq> 35) (Format k) = Format k" by (simp add: takeWhile_eq_all_conv)
  show "line_text (Format k) = Format k" unfolding line_text_def tw by (rule trim_spaceless [OF sp])
  show "keyFromLine (Format k) = Ok k"
    using fields_from_spaceless [OF sp, of "[]"] ne Parse_Format [OF assms]
    by (simp add: keyFromLine_def Fields_def index_0)
qed

lemma scan_Format:
  assumes "\<forall>k \<in> set ks. length k = 32"
  shows "scan_lines (concat (map (\<lambda>k. Format k @ [10]) ks)) = (map Format ks, False)"
  using assms
proof (induction ks)
  case Nil
  then show ?case by (simp add: scan_lines.simps)
next
  case (Cons k ks)
  let ?rest = "concat (map (\<lambda>k. Format k @ [10]) ks)"
  note f = Format_line [of k]
  have k: "length k = 32" using Cons.prems by simp
  have tw: "takeWhile (\<lambda>b. b \<noteq> 10) (Format k @ 10 # ?rest) = Format k"
    using f(5) [OF k] by (subst takeWhile_append2) auto
  have cr: "dropCR (Format k) = Format k"
    using f(3,5) [OF k] last_in_set by (auto simp: dropCR_def)
  show ?case
    using Cons f(4) [OF k] by (subst scan_lines.simps) (simp add: tw cr Let_def MaxScanTokenSize_def)
qed

lemma load_Format:
  assumes "\<forall>k \<in> set ks. length k = 32" "distinct ks" "\<forall>k \<in> set ks. seen k = None"
  shows "load_lines line seen out (map Format ks) = Ok (out @ ks)"
  using assms
proof (induction ks arbitrary: line seen out)
  case (Cons k ks)
  have "\<forall>k' \<in> set ks. (seen(k \<mapsto> ())) k' = None" using Cons.prems by auto
  with Cons Format_line [of k] show ?case by simp
qed simp

section \<open>Properties\<close>

text \<open>
  C36 (\<open>key_text_roundtrip\<close>). The text form of a public key parses back to the key. Conversely, whatever
  \<open>Parse\<close> accepts is, up to white space around it and the case of its digits, the text form of the
  key it returns, which has 32 bytes; \<open>Parse\<close> never panics.
\<close>

theorem key_text_roundtrip:
  "(length pub = 32 \<longrightarrow> Parse (Format pub) = Ok pub)
   \<and> (Parse s = Ok k \<longrightarrow> length k = 32 \<and> map hex_lower (TrimSpace s) = Format k) \<and> Parse s \<noteq> Panic"
  using Parse_Format Parse_Ok Parse_no_panic by blast

theorem key_text_roundtrip_witness:
  "Parse (Format (zeros 32)) = Ok (zeros 32)"
  using key_text_roundtrip [of "zeros 32" "[]" "[]"] by simp

text \<open>
  C23 (\<open>allowlist_spec\<close>). Loading an allowlist against its description: with the lines of the file (none too
  long, no read error) the result is either the keys named by the lines that are not blank after
  their comment is cut, each once and each of 32 bytes, or the error of the first line that names
  none, with its number. A line that is too long, or a read error, never yields a shortened list.
  Loading never panics.
\<close>

theorem allowlist_spec:
  assumes "scan_lines data = (ls, long)"
  shows "(\<exists>ks. LoadAllowlist (FileData data False) = (if long then Err TokenTooLong else Ok ks)
       \<and> distinct ks \<and> set ks = line_keys ls \<and> (\<forall>k \<in> set ks. length k = 32) \<and> (\<forall>l \<in> set ls. good_line l)
       \<and> LoadAllowlist (FileData data True) = Err (if long then TokenTooLong else ReadAllowlist))
    \<or> (\<exists>i e. i < length ls \<and> LoadAllowlist (FileData data readError) = Err (AtLine (Suc i) e)
         \<and> keyFromLine (line_text (ls ! i)) = Err e \<and> (\<forall>l \<in> set (take i ls). good_line l))"
proof -
  have "(\<forall>k. Map.empty k \<noteq> None \<longleftrightarrow> k \<in> set ([] :: bytes list))" "distinct ([] :: bytes list)" by simp_all
  from load_lines_cases [OF this, of 1 ls] show ?thesis
  proof (elim disjE exE conjE)
    fix ks assume k: "load_lines 1 Map.empty [] ls = Ok ks" "distinct ks" "set ks = set [] \<union> line_keys ls" "\<forall>l \<in> set ls. good_line l"
    have "\<forall>k \<in> set ks. length k = 32" using k(3) keyFromLine_length by (auto simp: line_keys_def)
    with k assms show ?thesis by (intro disjI1 exI [of _ ks]) (simp add: LoadAllowlist_def)
  next
    fix i e assume k: "i < length ls" "load_lines 1 Map.empty [] ls = Err (AtLine (1 + i) e)" "keyFromLine (line_text (ls ! i)) = Err e"
      "\<forall>l \<in> set (take i ls). good_line l"
    with assms show ?thesis by (intro disjI2 exI [of _ i] exI [of _ e]) (simp add: LoadAllowlist_def)
  qed
qed

theorem allowlist_spec_witness:
  "LoadAllowlist (FileData [] True) = Err ReadAllowlist"
proof -
  have s: "scan_lines [] = ([], False)" by (simp add: scan_lines.simps)
  show ?thesis using allowlist_spec [OF s, of True] by auto
qed

text \<open>
  A file that lists distinct keys in their text form, one per line, is
  loaded as exactly these keys in this order.
\<close>

theorem allowlist_file_roundtrip:
  assumes "\<forall>k \<in> set ks. length k = 32" "distinct ks"
  shows "LoadAllowlist (FileData (concat (map (\<lambda>k. Format k @ [10]) ks)) False) = Ok ks"
  using scan_Format [OF assms(1)] load_Format [OF assms, of Map.empty 1 "[]"] by (simp add: LoadAllowlist_def)

theorem allowlist_file_roundtrip_witness:
  "LoadAllowlist (FileData (concat (map (\<lambda>k. Format k @ [10]) [zeros 32, replicate 32 1])) False) = Ok [zeros 32, replicate 32 1]"
  using allowlist_file_roundtrip [of "[zeros 32, replicate 32 1]"] by (simp add: zeros_def)

text \<open>
  C35 (\<open>key_file_roundtrip\<close>). Generating a key writes one file, readable by its owner only, whose content is
  a JSON string (the base64 form of the 64 bytes), and loading it gives the key back; a second
  \<open>LoadOrGenerate\<close> loads that key instead of making another, and a further \<open>Generate\<close> leaves the file as
  it is, whatever the operating system answers.
\<close>

theorem key_file_roundtrip:
  assumes "ed25519_ok c" "ge_random env = Some seed" "length seed = 32"
    and "\<not> ge_stat_error env" "\<not> ge_mkdir_error env" "ge_write env = Written" "fs path = None"
  shows "\<exists>priv fs'. Generate c env path fs = (fs', Ok priv) \<and> valid_key c priv
    \<and> fs' = fs(path \<mapsto> (json_Marshal_bytes priv, 384)) \<and> Load False path fs' = Ok priv
    \<and> LoadOrGenerate c env False path fs = (fs', True, Ok priv)
    \<and> LoadOrGenerate c env' False path fs' = (fs', False, Ok priv)
    \<and> fst (Generate c env' path fs') = fs'"
proof -
  let ?priv = "ed_NewKeyFromSeed c seed"
  have v: "valid_key c ?priv" using assms(1,3) by (simp add: ed25519_ok_def)
  then have "length ?priv = 64" by (simp add: valid_key_def)
  with v assms show ?thesis
    by (intro exI [of _ ?priv] exI [of _ "fs(path \<mapsto> (json_Marshal_bytes ?priv, 384))"])
      (simp add: Generate_def LoadOrGenerate_def Load_def json_roundtrip PrivateKeySize_def key_mode_def Let_def)
qed

theorem key_file_roundtrip_witness:
  "\<exists>priv fs'. Generate toy_ed25519 \<lparr>ge_stat_error = False, ge_random = Some (zeros 32), ge_mkdir_error = False, ge_write = Written\<rparr>
      ''k'' Map.empty = (fs', Ok priv) \<and> Load False ''k'' fs' = Ok priv"
proof -
  let ?env = "\<lparr>ge_stat_error = False, ge_random = Some (zeros 32), ge_mkdir_error = False, ge_write = Written\<rparr>"
  have "\<exists>priv fs'. Generate toy_ed25519 ?env ''k'' Map.empty = (fs', Ok priv) \<and> valid_key toy_ed25519 priv
    \<and> fs' = Map.empty(''k'' \<mapsto> (json_Marshal_bytes priv, 384)) \<and> Load False ''k'' fs' = Ok priv
    \<and> LoadOrGenerate toy_ed25519 ?env False ''k'' Map.empty = (fs', True, Ok priv)
    \<and> LoadOrGenerate toy_ed25519 ?env False ''k'' fs' = (fs', False, Ok priv)
    \<and> fst (Generate toy_ed25519 ?env ''k'' fs') = fs'"
    by (rule key_file_roundtrip [OF toy_ed25519_ok, where seed = "zeros 32"]) simp_all
  then show ?thesis by blast
qed

end
