(* ===== verification/Go_Net.thy ===== *)
theory Go_Net
  imports Go_Text
begin

text \<open>
  The text form of IP addresses in Go's \<open>net\<close> and \<open>net/netip\<close>: decimal numbers, \<open>net.ParseIP\<close> for IPv4 and IPv6
  (an address with a zone is refused), and \<open>To4\<close>. An address is a list of 16 bytes.
\<close>

section \<open>Decimal numbers\<close>

definition digit_char :: "nat \<Rightarrow> byte" where
  "digit_char d = word_of_nat (48 + d)"

fun decimal :: "nat \<Rightarrow> bytes" where
  "decimal n = (if n < 10 then [digit_char n] else decimal (n div 10) @ [digit_char (n mod 10)])"

declare decimal.simps [simp del]

section \<open>IPv4\<close>

text \<open>
  The loop of \<open>parseIPv4Fields\<close>: \<open>atDot\<close> is true at the start and right after a dot, \<open>val\<close> and \<open>digLen\<close> belong to the
  current field, \<open>flds\<close> are those read so far.
\<close>

fun parseIPv4Fields :: "bool \<Rightarrow> nat \<Rightarrow> nat \<Rightarrow> bytes \<Rightarrow> bytes \<Rightarrow> bytes option" where
  "parseIPv4Fields atDot val digLen flds [] =
     (if length flds < 3 then None else Some (flds @ [word_of_nat val]))"
| "parseIPv4Fields atDot val digLen flds (c # s) =
     (if 48 \<le> c \<and> c \<le> 57 then
        (if digLen = 1 \<and> val = 0 then None
         else let val' = val * 10 + unat (c - 48) in
           if val' > 255 then None else parseIPv4Fields False val' (Suc digLen) flds s)
      else if c = 46 then
        (if atDot \<or> s = [] then None
         else if length flds = 3 then None
         else parseIPv4Fields True 0 0 (flds @ [word_of_nat val]) s)
      else None)"

section \<open>IPv6\<close>

text \<open>The hexadecimal digits at the front: their number, their value and the rest.\<close>

fun hex_group :: "nat \<Rightarrow> nat \<Rightarrow> bytes \<Rightarrow> (nat \<times> nat \<times> bytes) option" where
  "hex_group off acc [] = Some (off, acc, [])"
| "hex_group off acc (c # s) =
     (case reverseHex c of
        None \<Rightarrow> Some (off, acc, c # s)
      | Some d \<Rightarrow> let acc' = acc * 16 + unat d in
          if off > 3 then None else if acc' > 65535 then None else hex_group (Suc off) acc' s)"

text \<open>The loop over the groups: \<open>ellipsis\<close> is the position of \<open>::\<close>, \<open>ip\<close> the bytes read so far.\<close>

function ipv6_groups :: "nat option \<Rightarrow> bytes \<Rightarrow> bytes \<Rightarrow> (nat option \<times> bytes) option" where
  "ipv6_groups ellipsis ip s =
     (if length ip \<ge> 16 then (if s = [] then Some (ellipsis, ip) else None)
      else case hex_group 0 0 s of
        None \<Rightarrow> None
      | Some (off, acc, rest) \<Rightarrow>
          if off = 0 then None
          else if rest \<noteq> [] \<and> hd rest = 46 then
            (if ellipsis = None \<and> length ip \<noteq> 12 then None
             else if length ip + 4 > 16 then None
             else case parseIPv4Fields True 0 0 [] s of None \<Rightarrow> None | Some q \<Rightarrow> Some (ellipsis, ip @ q))
          else
            let ip' = ip @ [word_of_nat (acc div 256), word_of_nat (acc mod 256)] in
            if rest = [] then Some (ellipsis, ip')
            else if hd rest \<noteq> 58 then None
            else if tl rest = [] then None
            else if hd (tl rest) = 58 then
              (if ellipsis \<noteq> None then None
               else if tl (tl rest) = [] then Some (Some (length ip'), ip')
               else ipv6_groups (Some (length ip')) ip' (tl (tl rest)))
            else ipv6_groups ellipsis ip' (tl rest))"
  by pat_completeness auto
termination
  by (relation "measure (\<lambda>(ellipsis, ip, s). 16 - length ip)") auto

declare ipv6_groups.simps [simp del]

text \<open>The ellipsis stands for at least one group of zeros.\<close>

definition parseIPv6 :: "bytes \<Rightarrow> bytes option" where
  "parseIPv6 s =
     (if 37 \<in> set s then None
      else let (ellipsis, t) = (if take 2 s = [58, 58] then (Some 0, drop 2 s) else (None, s)) in
      if ellipsis \<noteq> None \<and> t = [] then Some (zeros 16)
      else case ipv6_groups ellipsis [] t of
        None \<Rightarrow> None
      | Some (e, ip) \<Rightarrow>
          if length ip < 16 then
            (case e of None \<Rightarrow> None | Some k \<Rightarrow> Some (take k ip @ zeros (16 - length ip) @ drop k ip))
          else if e \<noteq> None then None else Some ip)"

section \<open>Addresses\<close>

fun ParseAddr :: "bytes \<Rightarrow> bytes \<Rightarrow> bytes option" where
  "ParseAddr whole [] = None"
| "ParseAddr whole (c # s) =
     (if c = 46 then map_option (\<lambda>q. zeros 10 @ [255, 255] @ q) (parseIPv4Fields True 0 0 [] whole)
      else if c = 58 then parseIPv6 whole
      else if c = 37 then None
      else ParseAddr whole s)"

definition net_ParseIP :: "bytes \<Rightarrow> bytes option" where
  "net_ParseIP s = ParseAddr s s"

definition To4 :: "bytes \<Rightarrow> bytes option" where
  "To4 ip = (if take 10 ip = zeros 10 \<and> take 2 (drop 10 ip) = [255, 255] then Some (drop 12 ip) else None)"

section \<open>Dotted decimals\<close>

lemma unat_digit_char: "d < 10 \<Longrightarrow> unat (digit_char d) = 48 + d"
  unfolding digit_char_def by (subst unat_of_nat) simp

lemma digit_step:
  assumes "d < 10"
  shows "parseIPv4Fields atDot val digLen flds (digit_char d # s) =
    (if digLen = 1 \<and> val = 0 then None else if val * 10 + d > 255 then None
     else parseIPv4Fields False (val * 10 + d) (Suc digLen) flds s)"
proof -
  note u = unat_digit_char [OF assms]
  have le: "48 \<le> digit_char d" "digit_char d \<le> 57"
    using assms by (simp_all add: word_le_nat_alt u)
  have "unat (digit_char d - 48) = d" using le(1) by (simp add: unat_sub u)
  with le show ?thesis by (simp add: Let_def)
qed

lemma octet_text:
  assumes "n < 256"
  shows "\<exists>k. parseIPv4Fields atDot 0 0 flds (decimal n @ s) = parseIPv4Fields False n k flds s"
proof -
  consider "n < 10" | "10 \<le> n" "n < 100" | "100 \<le> n" by linarith
  then show ?thesis
  proof cases
    case 1
    have "decimal n = [digit_char n]" using 1 by (simp add: decimal.simps)
    then have "parseIPv4Fields atDot 0 0 flds (decimal n @ s) = parseIPv4Fields False n 1 flds s"
      using 1 by (simp add: digit_step del: parseIPv4Fields.simps)
    then show ?thesis by blast
  next
    case 2
    have d: "decimal n = [digit_char (n div 10), digit_char (n mod 10)]" "n div 10 < 10" "n div 10 \<noteq> 0"
      using 2 by (auto simp: decimal.simps [of n] decimal.simps [of "n div 10"])
    have "parseIPv4Fields atDot 0 0 flds (decimal n @ s) = parseIPv4Fields False (n div 10 * 10 + n mod 10) 2 flds s"
      using d 2 by (simp add: digit_step numeral_2_eq_2 del: parseIPv4Fields.simps)
    then show ?thesis by (metis div_mult_mod_eq)
  next
    case 3
    define a b e where "a = n div 10 div 10" and "b = n div 10 mod 10" and "e = n mod 10"
    have n: "n = (a * 10 + b) * 10 + e" by (simp add: a_def b_def e_def)
    have r: "a < 10" "b < 10" "e < 10" "a \<noteq> 0" using 3 assms by (auto simp: a_def b_def e_def)
    have "decimal n = [digit_char a, digit_char b, digit_char e]"
      using 3 r by (simp add: decimal.simps [of n] decimal.simps [of "n div 10"] decimal.simps [of "n div 10 div 10"] a_def b_def e_def)
    then have "parseIPv4Fields atDot 0 0 flds (decimal n @ s) = parseIPv4Fields False ((a * 10 + b) * 10 + e) 3 flds s"
      using r assms n by (simp add: digit_step numeral_3_eq_3 del: parseIPv4Fields.simps)
    then show ?thesis using n by auto
  qed
qed

lemma decimal_chars: "b \<in> set (decimal n) \<Longrightarrow> 48 \<le> unat b \<and> unat b \<le> 57"
proof (induction n rule: decimal.induct)
  case (1 n)
  show ?case
  proof (cases "n < 10")
    case True
    with "1.prems" show ?thesis by (simp add: decimal.simps unat_digit_char)
  next
    case False
    then have "b \<in> set (decimal (n div 10)) \<or> b = digit_char (n mod 10)" using "1.prems" by (auto simp: decimal.simps [of n])
    with 1(1) [OF False] unat_digit_char [of "n mod 10"] show ?thesis by auto
  qed
qed

lemma decimal_ne [simp]: "decimal n \<noteq> []"
  by (subst decimal.simps) simp

text \<open>Dotted decimals parse back; they have no colon and no percent sign.\<close>

lemma dotted_fields:
  assumes "a < 256" "b < 256" "c < 256" "d < 256"
  shows "parseIPv4Fields True 0 0 [] (decimal a @ [46] @ decimal b @ [46] @ decimal c @ [46] @ decimal d)
    = Some [word_of_nat a, word_of_nat b, word_of_nat c, word_of_nat d]"
proof -
  have dot: "parseIPv4Fields False v k flds (46 # s) = parseIPv4Fields True 0 0 (flds @ [word_of_nat v]) s"
    if "s \<noteq> []" "length flds \<noteq> 3" for v k flds s
    using that by simp
  have "\<exists>k. parseIPv4Fields atDot 0 0 flds (decimal n @ 46 # s) = parseIPv4Fields True 0 0 (flds @ [word_of_nat n]) s"
    if "n < 256" "s \<noteq> []" "length flds \<noteq> 3" for atDot flds n s
    using octet_text [OF that(1), of atDot flds "46 # s"] dot [OF that(2,3)] by metis
  note oct = this
  obtain k where k: "parseIPv4Fields True 0 0 [word_of_nat a, word_of_nat b, word_of_nat c] (decimal d @ [])
      = parseIPv4Fields False d k [word_of_nat a, word_of_nat b, word_of_nat c] []"
    using octet_text [OF assms(4)] by blast
  show ?thesis
    using oct [OF assms(1), of "decimal b @ [46] @ decimal c @ [46] @ decimal d" "[]" True]
      oct [OF assms(2), of "decimal c @ [46] @ decimal d" "[word_of_nat a]" True]
      oct [OF assms(3), of "decimal d" "[word_of_nat a, word_of_nat b]" True] k
    by simp
qed

lemma ParseAddr_digits:
  "\<forall>x \<in> set s. 48 \<le> unat x \<Longrightarrow> \<forall>x \<in> set s. unat x \<le> 57 \<Longrightarrow> ParseAddr whole (s @ t) = ParseAddr whole t"
proof (induction s)
  case (Cons x s)
  then have "x \<noteq> 46" "x \<noteq> 37" "x \<noteq> 58" by auto
  with Cons show ?case by simp
qed simp

end
