(* ===== verification/Location_Offset.thy ===== *)
theory Location_Offset
  imports Packet Go_Net
begin

text \<open>
  The package \<open>internal/offset\<close>: location offsets, signed latency statements that may refer to other
  offsets. The encoding is recursive; decoding bounds the depth of the recursion and the number of
  nodes. The lemmas show that the decoder accepts exactly the encodings of the offsets within
  those bounds, that it never panics and always returns, and that the layout is the one the
  reflector's parser \<open>ParseOffsetInfo\<close> expects. The last section has the text form of \<open>TargetIP\<close>.
\<close>

section \<open>Data\<close>

definition Version :: byte where [simp]: "Version = 1"
definition Size :: nat where [simp]: "Size = 174"
definition MaxReferenceDepth :: nat where [simp]: "MaxReferenceDepth = 2"
definition MaxTotalReferences :: nat where [simp]: "MaxTotalReferences = 5"

datatype offset_error =
    ErrShortBuffer
  | ErrBadSignature
  | TooManyReferences nat nat
  | TrailingBytes nat
  | DepthExceeded nat nat
  | UnsupportedVersion byte byte
  | ReferenceError nat offset_error

datatype LocationOffset = LocationOffset
  (o_Signature: bytes) (o_AuthorityPubkey: bytes) (o_SenderPubkey: bytes)
  (ObservedAt: uint64) (o_Lat: float64) (o_Lng: float64) (MeasuredRttNs: uint64) (o_RttNs: uint64)
  (TargetIP: bytes) (References: "LocationOffset list")

section \<open>Encoding\<close>

fun EncodedLen :: "LocationOffset \<Rightarrow> nat" where
  "EncodedLen (LocationOffset sg au se ob la ln me rt ip refs) = Size + sum_list (map EncodedLen refs)"

text \<open>
  \<open>appendSigned\<close> appends every field but the signature, then each reference in full (\<open>Marshal\<close> of
  the reference, which is its signature followed by its own signed part).
\<close>

fun appendSigned :: "bytes \<Rightarrow> LocationOffset \<Rightarrow> bytes" where
  "appendSigned buf (LocationOffset sg au se ob la ln me rt ip refs) =
     buf @ [Version] @ au @ se @ le64 ob @ le64 la @ le64 ln @ le64 me @ le64 rt @ ip
       @ [word_of_nat (length refs)]
       @ concat (map (\<lambda>r. appendSigned (o_Signature r) r) refs)"

definition Marshal :: "LocationOffset \<Rightarrow> bytes" where
  "Marshal lo = appendSigned (o_Signature lo) lo"

definition SigningBytes :: "LocationOffset \<Rightarrow> bytes" where
  "SigningBytes lo = appendSigned [] lo"

section \<open>Decoding\<close>

fun countReferences :: "LocationOffset \<Rightarrow> nat" where
  "countReferences (LocationOffset sg au se ob la ln me rt ip refs) =
     length refs + sum_list (map countReferences refs)"

text \<open>
  \<open>unmarshal\<close> decodes one offset from the front of the data and returns how many bytes it consumed;
  \<open>unmarshal_refs\<close> is its loop over the references \<open>i, \<dots>, numRefs - 1\<close> from position \<open>off\<close> on.
\<close>

function unmarshal :: "bytes \<Rightarrow> nat \<Rightarrow> (offset_error, nat \<times> LocationOffset) result"
  and unmarshal_refs :: "nat \<Rightarrow> nat \<Rightarrow> nat \<Rightarrow> bytes \<Rightarrow> nat \<Rightarrow>
    (offset_error, nat \<times> LocationOffset list) result" where
  "unmarshal data depth =
     (if depth > MaxReferenceDepth then Err (DepthExceeded depth MaxReferenceDepth)
      else if length data < Size then Err ErrShortBuffer
      else
      bind_r (get_array 64 0 64 data) (\<lambda>sg.
      bind_r (index 64 data) (\<lambda>v.
      if v \<noteq> Version then Err (UnsupportedVersion v Version)
      else
      bind_r (get_array 32 65 97 data) (\<lambda>au.
      bind_r (get_array 32 97 129 data) (\<lambda>se.
      bind_r (get_le64 129 137 data) (\<lambda>ob.
      bind_r (get_le64 137 145 data) (\<lambda>la.
      bind_r (get_le64 145 153 data) (\<lambda>ln.
      bind_r (get_le64 153 161 data) (\<lambda>me.
      bind_r (get_le64 161 169 data) (\<lambda>rt.
      bind_r (get_array 4 169 173 data) (\<lambda>ip.
      bind_r (index 173 data) (\<lambda>numRefs.
      bind_r (unmarshal_refs 0 (unat numRefs) Size data depth) (\<lambda>(off, refs).
      Ok (off, LocationOffset sg au se ob la ln me rt ip refs))))))))))))))"
| "unmarshal_refs i numRefs off data depth =
     (if i < numRefs then
      bind_r (slice off (length data) data) (\<lambda>tail.
      bind_r (map_err (ReferenceError i) (unmarshal tail (depth + 1))) (\<lambda>(n, ref).
      bind_r (unmarshal_refs (i + 1) numRefs (off + n) data depth) (\<lambda>(off', refs).
      Ok (off', ref # refs))))
      else Ok (off, []))"
  by pat_completeness auto
termination
  by (relation "measures [
      case_sum (\<lambda>(data, depth). if depth > 2 then 0 else 2 * (3 - depth))
        (\<lambda>(i, numRefs, off, data, depth). if depth > 2 then 1 else 2 * (3 - depth) - 1),
      case_sum (\<lambda>_. 0) (\<lambda>(i, numRefs, off, data, depth). numRefs - i)]")
    auto

declare unmarshal.simps [simp del] unmarshal_refs.simps [simp del]

definition Unmarshal :: "bytes \<Rightarrow> (offset_error, LocationOffset) result" where
  "Unmarshal data =
     bind_r (unmarshal data 0) (\<lambda>(n, lo).
     let total = countReferences lo in
     if total > MaxTotalReferences then Err (TooManyReferences total MaxTotalReferences)
     else if n \<noteq> length data then Err (TrailingBytes (length data - n))
     else Ok lo)"

section \<open>Signatures\<close>

text \<open>\<open>Sign\<close> fills in the two keys and then signs; it panics on a key of the wrong length.\<close>

fun with_keys :: "bytes \<Rightarrow> bytes \<Rightarrow> LocationOffset \<Rightarrow> LocationOffset" where
  "with_keys au se (LocationOffset sg au0 se0 ob la ln me rt ip refs) =
     LocationOffset sg au se ob la ln me rt ip refs"

fun with_signature :: "bytes \<Rightarrow> LocationOffset \<Rightarrow> LocationOffset" where
  "with_signature sg (LocationOffset sg0 au se ob la ln me rt ip refs) =
     LocationOffset sg au se ob la ln me rt ip refs"

definition Offset_Sign ::
    "ed25519 \<Rightarrow> bytes \<Rightarrow> bytes \<Rightarrow> LocationOffset \<Rightarrow> ('e, LocationOffset) result" where
  "Offset_Sign c k senderPubkey lo =
     bind_r (PrivateKey_Public k) (\<lambda>pub.
     let lo = with_keys (go_copy (o_AuthorityPubkey lo) pub) senderPubkey lo in
     bind_r (ed25519_Sign c k (SigningBytes lo)) (\<lambda>sig.
     Ok (with_signature (go_copy (o_Signature lo) sig) lo)))"

definition Offset_Verify :: "ed25519 \<Rightarrow> LocationOffset \<Rightarrow> (offset_error, unit) result" where
  "Offset_Verify c lo =
     (if \<not> ed_Verify c (o_AuthorityPubkey lo) (SigningBytes lo) (o_Signature lo)
      then Err ErrBadSignature else Ok ())"

text \<open>\<open>VerifyChain\<close>, with its loop over the references.\<close>

fun VerifyChain :: "ed25519 \<Rightarrow> LocationOffset \<Rightarrow> (offset_error, unit) result"
  and VerifyChain_refs :: "ed25519 \<Rightarrow> nat \<Rightarrow> LocationOffset list \<Rightarrow> (offset_error, unit) result" where
  "VerifyChain c (LocationOffset sg au se ob la ln me rt ip refs) =
     bind_r (Offset_Verify c (LocationOffset sg au se ob la ln me rt ip refs)) (\<lambda>_.
     VerifyChain_refs c 0 refs)"
| "VerifyChain_refs c i [] = Ok ()"
| "VerifyChain_refs c i (r # rs) =
     bind_r (map_err (ReferenceError i) (VerifyChain c r)) (\<lambda>_. VerifyChain_refs c (Suc i) rs)"

section \<open>Well-formed offsets\<close>

text \<open>
  The array sizes of every node; the depth of the chain; the reference count of every node, which
  the encoding keeps in one byte.
\<close>

fun wf_sizes :: "LocationOffset \<Rightarrow> bool" where
  "wf_sizes (LocationOffset sg au se ob la ln me rt ip refs) \<longleftrightarrow>
     length sg = 64 \<and> length au = 32 \<and> length se = 32 \<and> length ip = 4 \<and> length refs < 256
     \<and> list_all wf_sizes refs"

fun ref_depth :: "LocationOffset \<Rightarrow> nat" where
  "ref_depth (LocationOffset sg au se ob la ln me rt ip refs) =
     (if refs = [] then 0 else Suc (Max (set (map ref_depth refs))))"

definition wf_offset :: "LocationOffset \<Rightarrow> bool" where
  "wf_offset lo \<longleftrightarrow> wf_sizes lo \<and> ref_depth lo \<le> MaxReferenceDepth
     \<and> countReferences lo \<le> MaxTotalReferences"

section \<open>The wire image\<close>

text \<open>The fixed part of an encoding: 174 bytes.\<close>

fun header :: "LocationOffset \<Rightarrow> bytes" where
  "header (LocationOffset sg au se ob la ln me rt ip refs) =
     sg @ [Version] @ au @ se @ le64 ob @ le64 la @ le64 ln @ le64 me @ le64 rt @ ip
       @ [word_of_nat (length refs)]"

lemma Marshal_split: "Marshal lo = header lo @ concat (map Marshal (References lo))"
  by (cases lo) (simp add: Marshal_def [abs_def])

lemma SigningBytes_split: "Marshal lo = o_Signature lo @ SigningBytes lo"
  by (cases lo) (simp add: Marshal_def SigningBytes_def)

lemma length_header [wire_len]: "wf_sizes lo \<Longrightarrow> length (header lo) = 174"
  by (cases lo) auto

lemma wf_sizes_refs: "wf_sizes lo \<Longrightarrow> r \<in> set (References lo) \<Longrightarrow> wf_sizes r"
  by (cases lo) (auto simp: list_all_iff)

lemma ref_depth_refs: "r \<in> set (References lo) \<Longrightarrow> Suc (ref_depth r) \<le> ref_depth lo"
  by (cases lo) auto

lemma ref_depth_le:
  assumes "\<And>r. r \<in> set (References lo) \<Longrightarrow> Suc (ref_depth r) \<le> d"
  shows "ref_depth lo \<le> d"
  using assms by (cases lo) (auto simp: Max_le_iff Suc_le_eq)

lemma References_induct [case_names node]:
  assumes "\<And>lo. (\<And>r. r \<in> set (References lo) \<Longrightarrow> P r) \<Longrightarrow> P lo"
  shows "P lo"
  by (induction lo) (rule assms, simp)

lemma length_Marshal: "wf_sizes lo \<Longrightarrow> length (Marshal lo) = EncodedLen lo"
proof (induction lo rule: References_induct)
  case (node lo)
  have "length (concat (map Marshal (References lo))) = sum_list (map EncodedLen (References lo))"
    using node wf_sizes_refs by (simp add: length_concat o_def cong: map_cong)
  with node.prems show ?case
    by (cases lo) (simp add: Marshal_split length_header del: wf_sizes.simps header.simps)
qed

section \<open>Decoding an encoding\<close>

lemma unmarshal_header:
  assumes "wf_sizes lo" "depth \<le> 2"
  shows "unmarshal (header lo @ rest) depth =
    bind_r (unmarshal_refs 0 (length (References lo)) 174 (header lo @ rest) depth) (\<lambda>(off, refs).
      Ok (off, LocationOffset (o_Signature lo) (o_AuthorityPubkey lo) (o_SenderPubkey lo)
        (ObservedAt lo) (o_Lat lo) (o_Lng lo) (MeasuredRttNs lo) (o_RttNs lo) (TargetIP lo) refs))"
proof (cases lo)
  case (LocationOffset sg au se ob la ln me rt ip refs)
  have "unat (word_of_nat (length refs) :: byte) = length refs"
    using assms LocationOffset by (simp add: unsigned_of_nat take_bit_nat_eq_self)
  with assms LocationOffset show ?thesis
    by (subst unmarshal.simps) (simp add: go_run)
qed

lemma unmarshal_refs_concat:
  assumes "\<And>r rest. r \<in> set refs \<Longrightarrow> unmarshal (Marshal r @ rest) (depth + 1) = Ok (length (Marshal r), r)"
    and "length pre = off" and "n = i + length refs"
  shows "unmarshal_refs i n off (pre @ concat (map Marshal refs) @ rest) depth
    = Ok (off + length (concat (map Marshal refs)), refs)"
  using assms
proof (induction refs arbitrary: i off pre)
  case Nil
  then show ?case by (subst unmarshal_refs.simps) simp
next
  case (Cons r refs)
  have "unmarshal_refs (Suc i) n (off + length (Marshal r))
      ((pre @ Marshal r) @ concat (map Marshal refs) @ rest) depth
    = Ok (off + length (Marshal r) + length (concat (map Marshal refs)), refs)"
    using Cons.prems by (intro Cons.IH) auto
  then show ?case
    using Cons.prems(1) [of r] Cons.prems(2,3) by (subst unmarshal_refs.simps) (simp add: slice_def)
qed

lemma unmarshal_Marshal:
  "wf_sizes lo \<Longrightarrow> ref_depth lo + depth \<le> 2 \<Longrightarrow>
   unmarshal (Marshal lo @ rest) depth = Ok (length (Marshal lo), lo)"
proof (induction lo arbitrary: depth rest rule: References_induct)
  case (node lo)
  have r: "unmarshal (Marshal r @ rest) (depth + 1) = Ok (length (Marshal r), r)"
    if "r \<in> set (References lo)" for r rest
    using that node.prems ref_depth_refs [OF that] wf_sizes_refs [OF _ that] by (intro node.IH) auto
  have "unmarshal_refs 0 (length (References lo)) 174
      (header lo @ concat (map Marshal (References lo)) @ rest) depth
    = Ok (174 + length (concat (map Marshal (References lo))), References lo)"
    using r node.prems by (intro unmarshal_refs_concat) (auto simp: length_header)
  then show ?case
    using node.prems by (simp add: Marshal_split unmarshal_header length_header)
qed

section \<open>What a decoded offset looks like\<close>

lemma unmarshal_OkE:
  assumes "unmarshal data depth = Ok (n, lo)"
  shows "\<exists>sg au se ob la ln me rt ip k refs. lo = LocationOffset sg au se ob la ln me rt ip refs
    \<and> 174 \<le> length data \<and> depth \<le> 2
    \<and> length sg = 64 \<and> length au = 32 \<and> length se = 32 \<and> length ip = 4
    \<and> data = sg @ [Version] @ au @ se @ le64 ob @ le64 la @ le64 ln @ le64 me @ le64 rt @ ip @ [k] @ drop 174 data
    \<and> unmarshal_refs 0 (unat k) 174 data depth = Ok (n, refs)"
proof -
  have len: "174 \<le> length data" and d: "depth \<le> 2"
    using assms by (subst (asm) unmarshal.simps, simp split: if_splits)+
  have g: "\<exists>v. get_le64 lo (lo + 8) data = (Ok v :: (offset_error, uint64) result)
      \<and> le64 v = take 8 (drop lo data)" if "lo \<le> 164" for lo
    using that len by (intro get_le64_ok) auto
  obtain ob la ln me rt where
    r: "get_le64 129 137 data = (Ok ob :: (offset_error, uint64) result)" "le64 ob = take 8 (drop 129 data)"
    "get_le64 137 145 data = (Ok la :: (offset_error, uint64) result)" "le64 la = take 8 (drop 137 data)"
    "get_le64 145 153 data = (Ok ln :: (offset_error, uint64) result)" "le64 ln = take 8 (drop 145 data)"
    "get_le64 153 161 data = (Ok me :: (offset_error, uint64) result)" "le64 me = take 8 (drop 153 data)"
    "get_le64 161 169 data = (Ok rt :: (offset_error, uint64) result)" "le64 rt = take 8 (drop 161 data)"
    using g [of 129] g [of 137] g [of 145] g [of 153] g [of 161] by auto
  have one: "[data ! i] = take 1 (drop i data)" if "i < 174" for i
    using that len by (simp add: take_Suc hd_drop_conv_nth)
  from assms len d obtain refs where v: "data ! 64 = Version"
    and u: "unmarshal_refs 0 (unat (data ! 173)) 174 data depth = Ok (n, refs)"
    and lo: "lo = LocationOffset (take 64 data) (take 32 (drop 65 data)) (take 32 (drop 97 data))
      ob la ln me rt (take 4 (drop 169 data)) refs"
    by (subst (asm) unmarshal.simps)
      (auto simp: get_array_ok index_def r bind_r_eq_Ok split: if_splits prod.splits)
  have "data = take 64 data @ [data ! 64] @ take 32 (drop 65 data) @ take 32 (drop 97 data)
      @ le64 ob @ le64 la @ le64 ln @ le64 me @ le64 rt @ take 4 (drop 169 data) @ [data ! 173] @ drop 174 data"
    by (simp only: one r) (simp add: glue)
  moreover have "length (take 64 data) = 64" "length (take 32 (drop 65 data)) = 32"
    "length (take 32 (drop 97 data)) = 32" "length (take 4 (drop 169 data)) = 4"
    using len by simp_all
  ultimately show ?thesis using v u lo len d by metis
qed

text \<open>
  The decoder reads back what the encoder writes: the consumed bytes are the encoding, every node
  has its array sizes, and the chain respects the depth bound. First the loop, given this for
  the nodes one level deeper, then the node itself by induction on the levels that are left.
\<close>

lemma unmarshal_refs_sound:
  assumes node: "\<And>data n lo. unmarshal data (depth + 1) = Ok (n, lo) \<Longrightarrow>
      n \<le> length data \<and> Marshal lo = take n data \<and> wf_sizes lo \<and> Suc (ref_depth lo) + depth \<le> 2"
    and "unmarshal_refs i numRefs off data depth = Ok (off', refs)" "off \<le> length data"
  shows "off \<le> off' \<and> off' \<le> length data \<and> length refs = numRefs - i
     \<and> concat (map Marshal refs) = take (off' - off) (drop off data)
     \<and> (\<forall>r \<in> set refs. wf_sizes r \<and> Suc (ref_depth r) + depth \<le> 2)"
  using assms(2,3)
proof (induction "numRefs - i" arbitrary: i off refs)
  case 0
  then show ?case by (subst (asm) unmarshal_refs.simps) simp
next
  case (Suc k)
  then have "i < numRefs" by simp
  with Suc.prems obtain n r rs where
    r: "unmarshal (drop off data) (depth + 1) = Ok (n, r)" and refs: "refs = r # rs"
    and rs: "unmarshal_refs (i + 1) numRefs (off + n) data depth = Ok (off', rs)"
    by (subst (asm) unmarshal_refs.simps) (auto simp: slice_def bind_r_eq_Ok)
  have n: "off + n \<le> length data" "Marshal r = take n (drop off data)" "wf_sizes r" "Suc (ref_depth r) + depth \<le> 2"
    using node [OF r] Suc.prems(2) by auto
  have IH: "off + n \<le> off' \<and> off' \<le> length data \<and> length rs = numRefs - (i + 1)
     \<and> concat (map Marshal rs) = take (off' - (off + n)) (drop (off + n) data)
     \<and> (\<forall>r \<in> set rs. wf_sizes r \<and> Suc (ref_depth r) + depth \<le> 2)"
    using Suc.hyps(2) rs n(1) by (intro Suc.hyps(1)) auto
  have "take n (drop off data) @ take (off' - (off + n)) (drop (off + n) data) = take (off' - off) (drop off data)"
    using IH take_add [of n "off' - (off + n)" "drop off data"] by (simp add: add.commute)
  with IH n refs \<open>i < numRefs\<close> show ?case by auto
qed

lemma unmarshal_sound:
  assumes "unmarshal data depth = Ok (n, lo)"
  shows "n \<le> length data \<and> Marshal lo = take n data \<and> wf_sizes lo \<and> ref_depth lo + depth \<le> 2"
  using assms
proof (induction "3 - depth" arbitrary: data depth n lo)
  case 0
  then show ?case by (subst (asm) unmarshal.simps) simp
next
  case (Suc l)
  from unmarshal_OkE [OF Suc.prems] obtain sg au se ob la ln me rt ip k refs where
    lo: "lo = LocationOffset sg au se ob la ln me rt ip refs" and len: "174 \<le> length data" "depth \<le> 2"
    and sz: "length sg = 64" "length au = 32" "length se = 32" "length ip = 4"
    and data: "data = sg @ [Version] @ au @ se @ le64 ob @ le64 la @ le64 ln @ le64 me @ le64 rt @ ip @ [k]
        @ drop 174 data"
    and refs: "unmarshal_refs 0 (unat k) 174 data depth = Ok (n, refs)" by blast
  have "n' \<le> length data' \<and> Marshal lo' = take n' data' \<and> wf_sizes lo' \<and> Suc (ref_depth lo') + depth \<le> 2"
    if "unmarshal data' (depth + 1) = Ok (n', lo')" for data' n' lo'
    using Suc.hyps(1) [OF _ that] Suc.hyps(2) by auto
  from unmarshal_refs_sound [OF this refs len(1)]
  have R: "174 \<le> n" "n \<le> length data" "length refs = unat k"
    "concat (map Marshal refs) = take (n - 174) (drop 174 data)"
    "\<And>r. r \<in> set refs \<Longrightarrow> wf_sizes r" "\<And>r. r \<in> set refs \<Longrightarrow> Suc (ref_depth r) + depth \<le> 2"
    by auto
  have "unat k < 256" using unsigned_less [of k] by simp
  then have wf: "wf_sizes lo" using lo sz R(3,5) by (simp add: list_all_iff)
  have "Suc (ref_depth r) \<le> 2 - depth" if "r \<in> set refs" for r
    using R(6) [OF that] by simp
  then have "ref_depth lo \<le> 2 - depth"
    by (intro ref_depth_le) (simp add: lo)
  moreover have h: "header lo @ drop 174 data = data"
    using data R(3) by (simp add: lo)
  then have "Marshal lo = take n data"
    using R(1,4) length_header [OF wf] Marshal_split [of lo] lo
    by (metis LocationOffset.sel(10) take_append take_all_iff le_add_diff_inverse order_refl)
  ultimately show ?case using wf R(2) len(2) by auto
qed

text \<open>Decoding never panics: the slices that are taken are within the bytes that are left.\<close>

lemma unmarshal_refs_no_panic:
  assumes "\<And>data. unmarshal data (depth + 1) \<noteq> Panic" "off \<le> length data"
  shows "unmarshal_refs i numRefs off data depth \<noteq> Panic"
  using assms(2)
proof (induction "numRefs - i" arbitrary: i off)
  case 0
  then show ?case by (subst unmarshal_refs.simps) simp
next
  case (Suc k)
  have "unmarshal_refs (i + 1) numRefs (off + n) data depth \<noteq> Panic"
    if "unmarshal (drop off data) (depth + 1) = Ok (n, lo)" for n lo
    using unmarshal_sound [OF that] Suc.prems Suc.hyps(2) by (intro Suc.hyps(1)) auto
  then show ?case
    using Suc.prems assms(1) [of "drop off data"]
    by (subst unmarshal_refs.simps) (auto simp: slice_def bind_r_eq_Panic)
qed

lemma unmarshal_no_panic: "unmarshal data depth \<noteq> Panic"
proof (induction "3 - depth" arbitrary: data depth)
  case 0
  then show ?case by (subst unmarshal.simps) simp
next
  case (Suc l)
  have "unmarshal_refs 0 k 174 data depth \<noteq> Panic" if "174 \<le> length data" for k
    using that Suc.hyps(1) [of "depth + 1"] Suc.hyps(2) by (intro unmarshal_refs_no_panic) auto
  then show ?case
    by (subst unmarshal.simps)
      (auto simp: get_array_ok index_def get_le64_val bind_r_eq_Panic)
qed

interpretation offset_wire: codec Marshal Unmarshal wf_offset
proof unfold_locales
  fix b x
  show "Unmarshal b \<noteq> Panic"
    using unmarshal_no_panic [of b 0] by (auto simp: Unmarshal_def Let_def bind_r_eq_Panic split: if_splits)
  assume "Unmarshal b = Ok x"
  then have "unmarshal b 0 = Ok (length b, x)" "countReferences x \<le> 5"
    by (auto simp: Unmarshal_def bind_r_eq_Ok Let_def split: if_splits)
  then show "wf_offset x" "Marshal x = b"
    using unmarshal_sound [of b 0 "length b" x] by (auto simp: wf_offset_def)
next
  fix x assume "wf_offset x"
  then show "Unmarshal (Marshal x) = Ok x"
    using unmarshal_Marshal [of x 0 "[]"] by (simp add: Unmarshal_def wf_offset_def)
qed

section \<open>Signatures of offsets and of chains\<close>

interpretation offset_sig: signed_object Sign Public ed_Verify signer_ok
  SigningBytes o_AuthorityPubkey o_Signature "\<lambda>c lo. Offset_Verify c lo = Ok ()" wf_sizes
  by unfold_locales (simp add: Offset_Verify_def)

lemma SigningBytes_with_signature [simp]: "SigningBytes (with_signature sg lo) = SigningBytes lo"
  by (cases lo) (simp add: SigningBytes_def)

lemma Offset_Sign_ok:
  assumes ok: "signer_ok c (NewEd25519Signer k)" and wf: "wf_sizes lo" and s: "length sender = 32"
  shows "\<exists>sg. Offset_Sign c k sender lo = Ok (with_signature sg (with_keys (drop 32 k) sender lo))
    \<and> wf_sizes (with_signature sg (with_keys (drop 32 k) sender lo))
    \<and> Offset_Verify c (with_signature sg (with_keys (drop 32 k) sender lo)) = Ok ()"
proof -
  let ?lo = "with_keys (drop 32 k) sender lo"
  let ?sg = "ed_Sign c k (SigningBytes ?lo)"
  note sk = signer_okD [OF ok, unfolded NewEd25519Signer_def, simplified]
  have au: "length (o_AuthorityPubkey lo) = 32" "length (o_Signature ?lo) = 64"
    using wf by (cases lo, simp)+
  have pub: "PrivateKey_Public k = Ok (drop 32 k)" and sign: "ed25519_Sign c k m = Ok (ed_Sign c k m)" for m
    using sk(1) by (simp_all add: PrivateKey_Public_def ed25519_Sign_def)
  have "Offset_Sign c k sender lo = Ok (with_signature ?sg ?lo)"
    using au sk(1,4) by (simp add: Offset_Sign_def pub sign Let_def)
  moreover have "wf_sizes (with_signature ?sg ?lo)"
    using wf sk(1,4) s by (cases lo) simp
  moreover have "o_AuthorityPubkey (with_signature ?sg ?lo) = drop 32 k"
    "o_Signature (with_signature ?sg ?lo) = ?sg"
    by (cases lo, simp)+
  then have "Offset_Verify c (with_signature ?sg ?lo) = Ok ()"
    using sk(5) by (simp add: Offset_Verify_def)
  ultimately show ?thesis by blast
qed

text \<open>The nodes of a chain: the offset itself and everything below it.\<close>

fun chain_nodes :: "LocationOffset \<Rightarrow> LocationOffset list" where
  "chain_nodes (LocationOffset sg au se ob la ln me rt ip refs) =
     LocationOffset sg au se ob la ln me rt ip refs # concat (map chain_nodes refs)"

lemma length_chain_nodes: "length (chain_nodes lo) = Suc (countReferences lo)"
proof (induction lo)
  case (LocationOffset sg au se ob la ln me rt ip refs)
  then have "length (concat (map chain_nodes refs)) = sum_list (map (\<lambda>r. Suc (countReferences r)) refs)"
    by (simp add: length_concat o_def cong: map_cong)
  also have "\<dots> = length refs + sum_list (map countReferences refs)"
    by (induction refs) auto
  finally show ?case by simp
qed

lemma VerifyChain_iff:
  "VerifyChain c lo = Ok () \<longleftrightarrow> (\<forall>x \<in> set (chain_nodes lo). Offset_Verify c x = Ok ())"
  "VerifyChain_refs c i rs = Ok () \<longleftrightarrow> (\<forall>r \<in> set rs. \<forall>x \<in> set (chain_nodes r). Offset_Verify c x = Ok ())"
  by (induction c lo and c i rs rule: VerifyChain_VerifyChain_refs.induct)
    (auto simp: bind_r_eq_Ok)

lemma VerifyChain_no_panic:
  "VerifyChain c lo \<noteq> Panic"
  "VerifyChain_refs c i rs \<noteq> Panic"
  by (induction c lo and c i rs rule: VerifyChain_VerifyChain_refs.induct)
    (auto simp: bind_r_eq_Panic Offset_Verify_def)

lemma EncodedLen_eq: "EncodedLen lo = 174 * Suc (countReferences lo)"
proof (induction lo)
  case (LocationOffset sg au se ob la ln me rt ip refs)
  then have "sum_list (map EncodedLen refs) = sum_list (map (\<lambda>r. 174 * Suc (countReferences r)) refs)"
    by (simp cong: map_cong)
  moreover have "sum_list (map (\<lambda>r. 174 * Suc (countReferences r)) refs)
      = 174 * (length refs + sum_list (map countReferences refs))"
    by (induction refs) auto
  ultimately show ?case by simp
qed

lemma with_signature_sel [simp]:
  "o_Signature (with_signature sg lo) = sg" "References (with_signature sg lo) = References lo"
  "countReferences (with_signature sg lo) = countReferences lo"
  "ref_depth (with_signature sg lo) = ref_depth lo"
  by (cases lo, simp)+

lemma wf_with_signature: "wf_offset lo \<Longrightarrow> length sg = 64 \<Longrightarrow> wf_offset (with_signature sg lo)"
  by (cases lo) (simp add: wf_offset_def)

lemma ParseOffsetInfo_Marshal:
  assumes "wf_sizes lo"
  shows "ParseOffsetInfo (Marshal lo) = Ok (Some \<lparr>OI_MeasurementSlot = ObservedAt lo, OI_Lat = o_Lat lo,
     OI_Lng = o_Lng lo, OI_RttNs = o_RttNs lo, OI_TargetIP = TargetIP lo\<rparr>)"
  using assms
  by (cases lo) (simp add: ParseOffsetInfo_def Marshal_split go_run slice_def)

lemma Unmarshal_trailing:
  assumes "wf_sizes lo" "ref_depth lo \<le> 2"
  shows "Unmarshal (Marshal lo @ t) =
    (if countReferences lo > 5 then Err (TooManyReferences (countReferences lo) 5)
     else if t \<noteq> [] then Err (TrailingBytes (length t)) else Ok lo)"
  using unmarshal_Marshal [of lo 0 t] assms by (simp add: Unmarshal_def Let_def)

section \<open>Properties\<close>

text \<open>
  C20 (\<open>offset_decode_exact\<close>). The decoder of location offsets accepts a byte string exactly when it
  is the encoding of an offset chain of depth at most two with at most five references, and
  returns that chain; on any other input it returns an error, and it never panics. With
  \<open>unmarshal\<close> total, a hostile blob can neither crash the decoder nor make it run forever.
\<close>

theorem offset_decode_exact:
  "(Unmarshal b = Ok lo \<longleftrightarrow> wf_offset lo \<and> b = Marshal lo) \<and> Unmarshal b \<noteq> Panic"
  using offset_wire.dec_iff offset_wire.dec_no_panic by blast

text \<open>
  A decoded chain has at most five references nested at most two deep,
  and the blob is exactly one 174-byte record per node, so at most 1044 bytes long.
\<close>

theorem offset_decode_bounds:
  assumes "Unmarshal b = Ok lo"
  shows "countReferences lo \<le> 5 \<and> ref_depth lo \<le> 2 \<and> length b = 174 * Suc (countReferences lo)
    \<and> length b \<le> 1044 \<and> length (chain_nodes lo) = Suc (countReferences lo)"
proof -
  have "wf_offset lo" "b = Marshal lo"
    using assms offset_wire.dec_iff by auto
  then show ?thesis
    by (simp add: wf_offset_def length_Marshal EncodedLen_eq length_chain_nodes)
qed

definition sample_root :: LocationOffset where
  "sample_root = LocationOffset (zeros 64) (zeros 32) (zeros 32) 1 2 3 4 5 [203, 0, 113, 7] []"

definition sample_chain :: LocationOffset where
  "sample_chain = LocationOffset (zeros 64) (zeros 32) (zeros 32) 1 2 3 4 9 [203, 0, 113, 8] [sample_root]"

lemma wf_sample_chain [simp]: "wf_offset sample_chain" "wf_sizes sample_chain" "wf_sizes sample_root"
  by (simp_all add: wf_offset_def sample_chain_def sample_root_def)

theorem offset_decode_bounds_witness:
  "Unmarshal (Marshal sample_chain) = Ok sample_chain \<and> length (Marshal sample_chain) = 348"
proof -
  have d: "Unmarshal (Marshal sample_chain) = Ok sample_chain"
    by (simp add: offset_wire.dec_enc)
  have "countReferences sample_chain = 1"
    by (simp add: sample_chain_def sample_root_def)
  with d offset_decode_bounds [OF d] show ?thesis by simp
qed

text \<open>
  The error of each malformed input: too short, another version, bytes left
  over behind a complete chain, and a chain within the depth bound with too many references.
\<close>

theorem offset_rejects:
  "(length b < 174 \<longrightarrow> Unmarshal b = Err ErrShortBuffer)
   \<and> (174 \<le> length b \<and> b ! 64 \<noteq> 1 \<longrightarrow> Unmarshal b = Err (UnsupportedVersion (b ! 64) 1))
   \<and> (wf_offset lo \<and> t \<noteq> [] \<longrightarrow> Unmarshal (Marshal lo @ t) = Err (TrailingBytes (length t)))
   \<and> (wf_sizes lo \<and> ref_depth lo \<le> 2 \<and> 5 < countReferences lo \<longrightarrow>
        Unmarshal (Marshal lo @ t) = Err (TooManyReferences (countReferences lo) 5))"
  by (auto simp: Unmarshal_trailing wf_offset_def)
    (auto simp: Unmarshal_def unmarshal.simps [of b 0] get_array_ok index_def)

theorem offset_rejects_witness:
  "Unmarshal [1, 2, 3] = Err ErrShortBuffer
   \<and> Unmarshal (Marshal sample_chain @ [0]) = Err (TrailingBytes 1)"
  using offset_rejects [of "[1, 2, 3]" sample_chain "[0]"] by simp

text \<open>
  C29 (\<open>offset_wire_layout\<close>). The reflector's parser reads an encoded offset at hard-coded byte
  positions; on every offset with the right array sizes it finds exactly the fields that were
  encoded there, references or not.
\<close>

theorem offset_wire_layout:
  assumes "wf_sizes lo"
  shows "ParseOffsetInfo (Marshal lo) = Ok (Some \<lparr>OI_MeasurementSlot = ObservedAt lo, OI_Lat = o_Lat lo,
     OI_Lng = o_Lng lo, OI_RttNs = o_RttNs lo, OI_TargetIP = TargetIP lo\<rparr>)
   \<and> (References lo = [] \<longrightarrow> length (Marshal lo) = LocationOffsetSize)"
  using ParseOffsetInfo_Marshal [OF assms] length_header [OF assms] by (simp add: Marshal_split)

theorem offset_wire_layout_witness:
  "ParseOffsetInfo (Marshal sample_root) = Ok (Some \<lparr>OI_MeasurementSlot = 1, OI_Lat = 2, OI_Lng = 3,
     OI_RttNs = 5, OI_TargetIP = [203, 0, 113, 7]\<rparr>)"
  by (subst offset_wire_layout [THEN conjunct1, OF wf_sample_chain(3)]) (simp add: sample_root_def)

text \<open>
  Signing an offset with a valid key sets the two keys and the
  signature and nothing else, and the result passes the check.
\<close>

theorem offset_sign_verifies:
  assumes "signer_ok c (NewEd25519Signer k)" "wf_sizes lo" "length sender = 32"
  shows "\<exists>sg. Offset_Sign c k sender lo = Ok (with_signature sg (with_keys (drop 32 k) sender lo))
    \<and> Offset_Verify c (with_signature sg (with_keys (drop 32 k) sender lo)) = Ok ()"
  using Offset_Sign_ok [OF assms] by blast

theorem offset_sign_verifies_witness:
  "\<exists>sg. Offset_Sign toy_ed25519 (replicate 64 1) (zeros 32) sample_root
      = Ok (with_signature sg (with_keys (replicate 32 1) (zeros 32) sample_root))"
  using offset_sign_verifies [of toy_ed25519 "replicate 64 1" sample_root "zeros 32"] toy_signer_ok
  by (auto simp: NewEd25519Signer_def toy_signer_def)

text \<open>
  C30 (\<open>offset_signature_covers_chain\<close>). The signed bytes determine everything but the outer
  signature: the keys, the position, the times and the whole chain of references with their own
  signatures. No field can be restated after signing without changing the signed message.
\<close>

theorem offset_signature_covers_chain:
  assumes "wf_offset a" "wf_offset b" "SigningBytes a = SigningBytes b" "length sg = 64"
  shows "with_signature sg a = with_signature sg b"
proof (rule offset_wire.enc_inj)
  show "Marshal (with_signature sg a) = Marshal (with_signature sg b)"
    using assms(3) by (simp add: SigningBytes_split)
qed (use assms wf_with_signature in auto)

theorem offset_signature_covers_chain_witness:
  "with_signature (zeros 64) sample_chain = with_signature (zeros 64) sample_chain
   \<and> wf_offset sample_chain"
  using offset_signature_covers_chain [of sample_chain sample_chain "zeros 64"] by simp

text \<open>
  C31 (\<open>VerifyChain_spec\<close>). \<open>VerifyChain\<close> succeeds exactly when the signature of every node of the
  chain is valid under the key the node names; otherwise it returns an error.
\<close>

theorem VerifyChain_spec:
  "(VerifyChain c lo = Ok () \<longleftrightarrow> (\<forall>x \<in> set (chain_nodes lo).
      ed_Verify c (o_AuthorityPubkey x) (SigningBytes x) (o_Signature x)))
   \<and> VerifyChain c lo \<noteq> Panic"
  using VerifyChain_iff(1) [of c lo] VerifyChain_no_panic(1) [of c lo]
  by (auto simp: Offset_Verify_def split: if_splits)

theorem VerifyChain_spec_witness:
  "VerifyChain (toy_ed25519\<lparr>ed_Verify := (\<lambda>pk m sg. m \<noteq> [])\<rparr>) sample_chain = Ok ()"
  using VerifyChain_spec [of "toy_ed25519\<lparr>ed_Verify := (\<lambda>pk m sg. m \<noteq> [])\<rparr>" sample_chain]
  by (simp add: sample_chain_def sample_root_def SigningBytes_def)

section \<open>Addresses as text\<close>

definition ParseIP :: "bytes \<Rightarrow> bytes" where
  "ParseIP host =
     (case net_ParseIP host of
        None \<Rightarrow> zeros 4
      | Some ip \<Rightarrow> (case To4 ip of None \<Rightarrow> zeros 4 | Some ip4 \<Rightarrow> [ip4 ! 0, ip4 ! 1, ip4 ! 2, ip4 ! 3]))"

definition FormatIP :: "bytes \<Rightarrow> bytes" where
  "FormatIP ip = decimal (unat (ip ! 0)) @ [46] @ decimal (unat (ip ! 1)) @ [46] @ decimal (unat (ip ! 2)) @ [46]
     @ decimal (unat (ip ! 3))"

text \<open>
  The dotted-decimal text of a \<open>TargetIP\<close> is parsed back to it, and \<open>ParseIP\<close> gives four bytes for any text,
  zeros unless the text is an IPv4 address or an IPv6 address that embeds one.
\<close>

theorem ip_text_roundtrip:
  "(length ip = 4 \<longrightarrow> ParseIP (FormatIP ip) = ip) \<and> length (ParseIP s) = 4"
proof (intro conjI impI)
  assume "length ip = 4"
  then obtain a b c d where ip: "ip = [a, b, c, d]"
    by (auto simp: length_Suc_conv numeral_eq_Suc)
  have lt: "unat w < 256" for w :: byte using unsigned_less [of w] by simp
  have f: "FormatIP ip = decimal (unat a) @ [46] @ decimal (unat b) @ [46] @ decimal (unat c) @ [46] @ decimal (unat d)"
    by (simp add: FormatIP_def ip numeral_2_eq_2 numeral_3_eq_3)
  have "net_ParseIP (FormatIP ip) = map_option (\<lambda>q. zeros 10 @ [255, 255] @ q) (parseIPv4Fields True 0 0 [] (FormatIP ip))"
  proof -
    have "ParseAddr (FormatIP ip) (decimal (unat a) @ 46 # t) = ParseAddr (FormatIP ip) (46 # t)" for t
      using decimal_chars by (intro ParseAddr_digits) auto
    then show ?thesis unfolding net_ParseIP_def by (subst (2) f) simp
  qed
  also have "\<dots> = Some (zeros 10 @ [255, 255] @ [a, b, c, d])"
    unfolding f by (subst dotted_fields) (simp_all add: lt)
  finally show "ParseIP (FormatIP ip) = ip"
    by (simp add: ParseIP_def To4_def ip zeros_def numeral_eq_Suc)
qed (simp add: ParseIP_def split: option.splits)

end
