(* ===== verification/Go_Float.thy ===== *)
theory Go_Float
  imports Complex_Main Go_Prelude
begin

text \<open>
  Comparisons of \<open>float64\<close> values, on their bit patterns. A pattern that is not a NaN stands for a
  rational number; the two infinities are represented by \<open>2 ^ 1024\<close> and its negative, which lie beyond
  all finite values, so that comparing numbers is comparing values. A NaN compares false with
  everything.
\<close>

definition f64_negative :: "float64 \<Rightarrow> bool" where
  "f64_negative b \<longleftrightarrow> 2 ^ 63 \<le> unat b"

definition f64_exponent :: "float64 \<Rightarrow> nat" where
  "f64_exponent b = unat b div 2 ^ 52 mod 2 ^ 11"

definition f64_fraction :: "float64 \<Rightarrow> nat" where
  "f64_fraction b = unat b mod 2 ^ 52"

definition is_nan :: "float64 \<Rightarrow> bool" where
  "is_nan b \<longleftrightarrow> f64_exponent b = 2047 \<and> f64_fraction b \<noteq> 0"

text \<open>Subnormal numbers have no implicit leading bit.\<close>

definition f64_magnitude :: "float64 \<Rightarrow> rat" where
  "f64_magnitude b =
     (if f64_exponent b = 0 then of_nat (f64_fraction b) / 2 ^ 1074
      else of_nat (2 ^ 52 + f64_fraction b) * 2 ^ f64_exponent b / 2 ^ 1075)"

definition f64_value :: "float64 \<Rightarrow> rat" where
  "f64_value b = (if f64_negative b then - f64_magnitude b else f64_magnitude b)"

definition f64_eq :: "float64 \<Rightarrow> float64 \<Rightarrow> bool" where
  "f64_eq a b \<longleftrightarrow> \<not> is_nan a \<and> \<not> is_nan b \<and> f64_value a = f64_value b"

definition f64_less :: "float64 \<Rightarrow> float64 \<Rightarrow> bool" where
  "f64_less a b \<longleftrightarrow> \<not> is_nan a \<and> \<not> is_nan b \<and> f64_value a < f64_value b"

text \<open>The constants of the coordinate ranges.\<close>

definition f64_0 :: float64 where "f64_0 = 0"
definition f64_90 :: float64 where "f64_90 = 0x4056800000000000"
definition f64_neg90 :: float64 where "f64_neg90 = 0xC056800000000000"
definition f64_180 :: float64 where "f64_180 = 0x4066800000000000"
definition f64_neg180 :: float64 where "f64_neg180 = 0xC066800000000000"

lemma f64_fields:
  "f64_exponent f64_0 = 0" "f64_fraction f64_0 = 0" "\<not> f64_negative f64_0"
  "f64_exponent f64_90 = 1029" "f64_fraction f64_90 = 0x6800000000000" "\<not> f64_negative f64_90"
  "f64_exponent f64_neg90 = 1029" "f64_fraction f64_neg90 = 0x6800000000000" "f64_negative f64_neg90"
  "f64_exponent f64_180 = 1030" "f64_fraction f64_180 = 0x6800000000000" "\<not> f64_negative f64_180"
  "f64_exponent f64_neg180 = 1030" "f64_fraction f64_neg180 = 0x6800000000000" "f64_negative f64_neg180"
  by (simp_all add: f64_exponent_def f64_fraction_def f64_negative_def f64_0_def f64_90_def f64_neg90_def f64_180_def f64_neg180_def)

lemma f64_values [simp]:
  "f64_value f64_0 = 0" "f64_value f64_90 = 90" "f64_value f64_neg90 = - 90"
  "f64_value f64_180 = 180" "f64_value f64_neg180 = - 180"
  by (simp_all add: f64_value_def f64_magnitude_def f64_fields)

lemma f64_constants_not_nan [simp]:
  "\<not> is_nan f64_0" "\<not> is_nan f64_90" "\<not> is_nan f64_neg90" "\<not> is_nan f64_180" "\<not> is_nan f64_neg180"
  by (simp_all add: is_nan_def f64_fields)

end
