(* ===== verification/Anchor.thy ===== *)
theory Anchor
  imports Reflector Keys Location_Offset Go_Float
begin

text \<open>
  The anchor (\<open>cmd/anchor/main.go\<close>): the checks of its coordinates, its start, and its three
  goroutines, the reflector and the two loops that refresh the reference offset and reload the
  allowlist. The goroutines share only the reflector; a run is a sequence of events, each of which
  is a datagram, a tick of a loop, or the end of a loop. Command-line flags are a record, what the
  operating system answers is a record, and log messages are left out.
\<close>

section \<open>Configuration\<close>

record anchor_flags =
  keyPath :: string
  anchorID :: bytes
  lat :: float64
  lng :: float64
  verify_interval :: duration
  replyTimeout :: duration
  refreshEvery :: duration
  reloadEvery :: duration

datatype anchor_error =
    NullIsland
  | LatOutOfRange float64
  | LngOutOfRange float64
  | KeysError key_error
  | CreateReflector new_error
  | ReflectorError run_error

definition check_coordinates :: "anchor_flags \<Rightarrow> (anchor_error, unit) result" where
  "check_coordinates fl =
     (if f64_eq (lat fl) f64_0 \<and> f64_eq (lng fl) f64_0 then Err NullIsland
      else if f64_less (lat fl) f64_neg90 \<or> f64_less f64_90 (lat fl) then Err (LatOutOfRange (lat fl))
      else if f64_less (lng fl) f64_neg180 \<or> f64_less f64_180 (lng fl) then Err (LngOutOfRange (lng fl))
      else Ok ())"

definition displayID :: "anchor_flags \<Rightarrow> bytes \<Rightarrow> (anchor_error, bytes) result" where
  "displayID fl self = (if anchorID fl \<noteq> [] then Ok (anchorID fl) else slice 0 12 (Format self))"

section \<open>The reference offset\<close>

text \<open>\<open>uint64(t.UnixNano())\<close>.\<close>

definition UnixNano :: "gotime \<Rightarrow> uint64" where
  "UnixNano t = word_of_int (wall t)"

definition referenceOffset ::
    "ed25519 \<Rightarrow> anchor_flags \<Rightarrow> gotime \<Rightarrow> bytes \<Rightarrow> bytes \<Rightarrow> (anchor_error, bytes list) result" where
  "referenceOffset c fl now priv self =
     (let o0 = LocationOffset (zeros 64) (zeros 32) (zeros 32) (UnixNano now) (lat fl) (lng fl) 0 0 (zeros 4) []
      in bind_r (Offset_Sign c priv self o0) (\<lambda>o1. Ok [Marshal o1]))"

section \<open>The loops\<close>

text \<open>
  What the goroutines share and what each keeps: \<open>previous\<close> is the reload loop's last number of keys,
  and the flags tell whether a loop is still running.
\<close>

record anchor =
  reflector :: LinuxReflector
  priv :: bytes
  self :: bytes
  previous :: int
  refreshing :: bool
  reloading :: bool

text \<open>\<open>time.NewTicker\<close> panics on an interval that is not positive.\<close>

definition NewTicker :: "duration \<Rightarrow> (anchor_error, unit) result" where
  "NewTicker d = (if sint d \<le> 0 then Panic else Ok ())"

definition refresh_tick :: "ed25519 \<Rightarrow> anchor_flags \<Rightarrow> gotime \<Rightarrow> anchor \<Rightarrow> (anchor_error, anchor) result" where
  "refresh_tick c fl now a =
     bind_r (referenceOffset c fl now (priv a) (self a)) (\<lambda>os.
     Ok (a\<lparr>reflector := SetOffsets os (reflector a)\<rparr>))"

definition reload_tick :: "allow_file \<Rightarrow> anchor \<Rightarrow> (anchor_error, anchor) result" where
  "reload_tick f a =
     (case LoadAllowlist f of
        Panic \<Rightarrow> Panic
      | Err _ \<Rightarrow> Ok a
      | Ok allowed \<Rightarrow>
          let a = a\<lparr>reflector := SetAuthorizedKeys allowed (reflector a)\<rparr>
          in Ok (if int (length allowed) \<noteq> previous a then a\<lparr>previous := int (length allowed)\<rparr> else a))"

datatype anchor_event =
    Packet datagram
  | RefreshTick gotime
  | RefreshDone
  | ReloadTick allow_file
  | ReloadDone

text \<open>One turn of one of the loops: \<open>refreshLoop\<close>, \<open>reloadLoop\<close>, or the reflector's.\<close>

definition refreshLoop_turn :: "ed25519 \<Rightarrow> anchor_flags \<Rightarrow> gotime option \<Rightarrow> anchor \<Rightarrow> (anchor_error, anchor) result" where
  "refreshLoop_turn c fl tick a =
     (if \<not> refreshing a then Ok a
      else case tick of None \<Rightarrow> Ok (a\<lparr>refreshing := False\<rparr>) | Some now \<Rightarrow> refresh_tick c fl now a)"

definition reloadLoop_turn :: "allow_file option \<Rightarrow> anchor \<Rightarrow> (anchor_error, anchor) result" where
  "reloadLoop_turn tick a =
     (if \<not> reloading a then Ok a
      else case tick of None \<Rightarrow> Ok (a\<lparr>reloading := False\<rparr>) | Some f \<Rightarrow> reload_tick f a)"

definition reflector_turn :: "ed25519 \<Rightarrow> datagram \<Rightarrow> anchor \<Rightarrow> (anchor_error, anchor) result" where
  "reflector_turn c d a =
     (case handle c d (reflector a) of
        (r, Crash) \<Rightarrow> Panic
      | (r, _) \<Rightarrow> Ok (a\<lparr>reflector := r\<rparr>))"

fun anchor_step :: "ed25519 \<Rightarrow> anchor_flags \<Rightarrow> anchor_event \<Rightarrow> anchor \<Rightarrow> (anchor_error, anchor) result" where
  "anchor_step c fl (Packet d) a = reflector_turn c d a"
| "anchor_step c fl (RefreshTick now) a = refreshLoop_turn c fl (Some now) a"
| "anchor_step c fl RefreshDone a = refreshLoop_turn c fl None a"
| "anchor_step c fl (ReloadTick f) a = reloadLoop_turn (Some f) a"
| "anchor_step c fl ReloadDone a = reloadLoop_turn None a"

fun anchor_exec :: "ed25519 \<Rightarrow> anchor_flags \<Rightarrow> anchor_event list \<Rightarrow> anchor \<Rightarrow> (anchor_error, anchor) result" where
  "anchor_exec c fl [] a = Ok a"
| "anchor_exec c fl (e # es) a = bind_r (anchor_step c fl e a) (anchor_exec c fl es)"

section \<open>Start and end\<close>

record anchor_env =
  ae_gen :: gen_env
  ae_read_error :: bool
  ae_allow :: allow_file
  ae_socket :: socket_env
  ae_now :: gotime

definition create_reflector ::
    "anchor_flags \<Rightarrow> socket_env \<Rightarrow> bytes \<Rightarrow> bytes \<Rightarrow> bytes list \<Rightarrow> (anchor_error, LinuxReflector) result" where
  "create_reflector fl env k pub allowed =
     (case NewReflector env (replyTimeout fl) (NewEd25519Signer k) pub allowed (verify_interval fl) of
        (Inl e, _) \<Rightarrow> Err (CreateReflector e)
      | (Inr r, _) \<Rightarrow> Ok r)"

text \<open>\<open>run\<close> up to the point where the reflector and the two loops are running.\<close>

definition start :: "ed25519 \<Rightarrow> anchor_flags \<Rightarrow> anchor_env \<Rightarrow> files \<Rightarrow> files \<times> (anchor_error, anchor) result" where
  "start c fl env fs =
     (case check_coordinates fl of
        Err e \<Rightarrow> (fs, Err e)
      | Panic \<Rightarrow> (fs, Panic)
      | Ok _ \<Rightarrow>
     (case LoadOrGenerate c (ae_gen env) (ae_read_error env) (keyPath fl) fs of (fs', generated, loaded) \<Rightarrow>
       (fs',
        bind_r (map_err KeysError loaded) (\<lambda>priv.
        bind_r (map_err KeysError (PublicOf priv)) (\<lambda>self.
        bind_r (map_err KeysError (LoadAllowlist (ae_allow env))) (\<lambda>allowed.
        bind_r (create_reflector fl (ae_socket env) priv self allowed) (\<lambda>r.
        bind_r (referenceOffset c fl (ae_now env) priv self) (\<lambda>os.
        bind_r (displayID fl self) (\<lambda>_.
        bind_r (NewTicker (refreshEvery fl)) (\<lambda>_.
        bind_r (NewTicker (reloadEvery fl)) (\<lambda>_.
        Ok \<lparr>reflector = SetOffsets os r, priv = priv, self = self, previous = -1,
             refreshing = True, reloading = True\<rparr>)))))))))))"

text \<open>
  The whole of \<open>run\<close>: \<open>ended\<close> is what the reflector's \<open>Run\<close> returns after the events, and \<open>stopped\<close> tells
  whether a signal has cancelled the context.
\<close>

definition anchor_run ::
    "ed25519 \<Rightarrow> anchor_flags \<Rightarrow> anchor_env \<Rightarrow> files \<Rightarrow> anchor_event list \<Rightarrow> run_error option \<Rightarrow> bool \<Rightarrow>
     files \<times> (anchor_error, unit) result" where
  "anchor_run c fl env fs es ended stopped =
     (case start c fl env fs of (fs', r) \<Rightarrow>
       (fs', bind_r r (\<lambda>a.
         bind_r (anchor_exec c fl es a) (\<lambda>_.
         case ended of
           Some e \<Rightarrow> if \<not> stopped then Err (ReflectorError e) else Ok ()
         | None \<Rightarrow> Ok ()))))"

section \<open>Facts about the parts\<close>

lemma PublicOf_ok: "length k = 64 \<Longrightarrow> PublicOf k = Ok (drop 32 k)"
  by (simp add: PublicOf_def PrivateKey_Public_def)

text \<open>The statement the anchor signs: its coordinates, the time, no round trip, no references.\<close>

definition position_offset :: "ed25519 \<Rightarrow> anchor_flags \<Rightarrow> gotime \<Rightarrow> bytes \<Rightarrow> LocationOffset \<Rightarrow> bool" where
  "position_offset c fl now pk lo \<longleftrightarrow> wf_offset lo \<and> VerifyChain c lo = Ok () \<and> References lo = []
     \<and> o_AuthorityPubkey lo = pk \<and> o_SenderPubkey lo = pk \<and> ObservedAt lo = UnixNano now
     \<and> o_Lat lo = lat fl \<and> o_Lng lo = lng fl \<and> MeasuredRttNs lo = 0 \<and> o_RttNs lo = 0"

lemma referenceOffset_ok:
  assumes "signer_ok c (NewEd25519Signer k)"
  shows "\<exists>lo. referenceOffset c fl now k (drop 32 k) = Ok [Marshal lo] \<and> position_offset c fl now (drop 32 k) lo"
proof -
  let ?o = "LocationOffset (zeros 64) (zeros 32) (zeros 32) (UnixNano now) (lat fl) (lng fl) 0 0 (zeros 4) []"
  have k: "length (drop 32 k) = 32" using signer_okD(1) [OF assms] by (simp add: NewEd25519Signer_def)
  have wf: "wf_sizes ?o" by simp
  from Offset_Sign_ok [OF assms wf k] obtain sg where
    s: "Offset_Sign c k (drop 32 k) ?o = (Ok (with_signature sg (with_keys (drop 32 k) (drop 32 k) ?o)) :: (anchor_error, _) result)"
      "wf_sizes (with_signature sg (with_keys (drop 32 k) (drop 32 k) ?o))"
      "Offset_Verify c (with_signature sg (with_keys (drop 32 k) (drop 32 k) ?o)) = Ok ()" by blast
  let ?lo = "with_signature sg (with_keys (drop 32 k) (drop 32 k) ?o)"
  have "VerifyChain c ?lo = Ok ()" using s(3) by simp
  with s show ?thesis
    by (intro exI [of _ ?lo]) (simp add: referenceOffset_def position_offset_def wf_offset_def)
qed

lemma location_position:
  "position_offset c fl now k lo \<Longrightarrow> location_data [Marshal lo] = Ok (UnixNano now, lat fl, lng fl, 0)"
  by (simp add: position_offset_def wf_offset_def location_data_def ParseOffsetInfo_Marshal)

lemma position_wf: "position_offset c fl now k lo \<Longrightarrow> wf_offsets [Marshal lo]"
  by (cases lo) (simp add: position_offset_def wf_offset_def wf_offsets_def length_Marshal del: wf_sizes.simps)

lemma LoadAllowlist_no_panic: "LoadAllowlist f \<noteq> Panic"
proof (cases f)
  case (FileData data readError)
  obtain ls long where s: "scan_lines data = (ls, long)" by fastforce
  have "load_lines 1 Map.empty [] ls \<noteq> Panic"
    using load_lines_cases [of Map.empty "[]" 1 ls] by auto
  with s FileData show ?thesis by (auto simp: LoadAllowlist_def bind_r_eq_Panic)
qed (simp add: LoadAllowlist_def)

section \<open>The anchor as a reflector run\<close>

text \<open>
  The calls of the reflector that the events of an anchor stand for, read off the events alone: a datagram is one for the
  reflector, a refresh tick a \<open>SetOffsets\<close> with a freshly signed offset, a reload tick a \<open>SetAuthorizedKeys\<close> if the
  file was read and nothing otherwise; the ticks after the end of their loop are nothing. \<open>f\<close> and \<open>l\<close> tell whether
  the refresh and the reload loop are running.
\<close>

fun reflector_calls :: "ed25519 \<Rightarrow> anchor_flags \<Rightarrow> bytes \<Rightarrow> bytes \<Rightarrow> bool \<Rightarrow> bool \<Rightarrow> anchor_event list \<Rightarrow> event list" where
  "reflector_calls c fl k pub f l [] = []"
| "reflector_calls c fl k pub f l (Packet d # es) = Dg d # reflector_calls c fl k pub f l es"
| "reflector_calls c fl k pub f l (RefreshTick now # es) =
     (case referenceOffset c fl now k pub of Ok os \<Rightarrow> if f then [Refresh os] else [] | _ \<Rightarrow> [])
     @ reflector_calls c fl k pub f l es"
| "reflector_calls c fl k pub f l (RefreshDone # es) = reflector_calls c fl k pub False l es"
| "reflector_calls c fl k pub f l (ReloadTick file # es) =
     (case LoadAllowlist file of Ok ks \<Rightarrow> if l then [Reload ks] else [] | _ \<Rightarrow> [])
     @ reflector_calls c fl k pub f l es"
| "reflector_calls c fl k pub f l (ReloadDone # es) = reflector_calls c fl k pub f False es"

lemmas turn_defs = reflector_turn_def refreshLoop_turn_def reloadLoop_turn_def refresh_tick_def reload_tick_def

lemma reflector_calls_append:
  "reflector_calls c fl k pub f l (xs @ ys) = reflector_calls c fl k pub f l xs
     @ reflector_calls c fl k pub (f \<and> RefreshDone \<notin> set xs) (l \<and> ReloadDone \<notin> set xs) ys"
  by (induction c fl k pub f l xs rule: reflector_calls.induct) simp_all

lemma anchor_step_refines:
  assumes "anchor_step c fl e a = Ok a'"
  shows "reflector a' = exec c (reflector_calls c fl (priv a) (self a) (refreshing a) (reloading a) [e]) (reflector a)"
    "priv a' = priv a" "self a' = self a" "refreshing a' \<longleftrightarrow> refreshing a \<and> RefreshDone \<noteq> e" "reloading a' \<longleftrightarrow> reloading a \<and> ReloadDone \<noteq> e"
  using assms
  by (cases e; auto simp: turn_defs apply_event_def bind_r_eq_Ok Let_def
      split: prod.splits outcome.splits result.splits if_splits)+

lemma anchor_exec_refines:
  "anchor_exec c fl es a = Ok a' \<Longrightarrow>
   reflector a' = exec c (reflector_calls c fl (priv a) (self a) (refreshing a) (reloading a) es) (reflector a)"
proof (induction es arbitrary: a)
  case (Cons e es)
  then obtain a1 where s: "anchor_step c fl e a = Ok a1" "anchor_exec c fl es a1 = Ok a'" by (auto simp: bind_r_eq_Ok)
  from Cons.IH [OF s(2)] anchor_step_refines [OF s(1)] reflector_calls_append [of c fl "priv a" "self a" _ _ "[e]" es]
  show ?case by (simp add: reflector_run.run_append del: reflector_calls.simps)
qed simp

section \<open>The invariant\<close>

text \<open>
  The keys belong together, and the reflector answers with the position stamped at the given time to
  the senders of the given list.
\<close>

definition anchor_ok :: "ed25519 \<Rightarrow> anchor_flags \<Rightarrow> bytes \<Rightarrow> gotime \<Rightarrow> bytes list \<Rightarrow> anchor \<Rightarrow> bool" where
  "anchor_ok c fl k now ks a \<longleftrightarrow> signer_ok c (NewEd25519Signer k) \<and> priv a = k \<and> self a = drop 32 k
     \<and> rsigner (reflector a) = NewEd25519Signer k \<and> geoprobePubkey (reflector a) = drop 32 k
     \<and> (\<exists>lo. offsets (reflector a) = [Marshal lo] \<and> position_offset c fl now (drop 32 k) lo)
     \<and> (\<forall>pk. authorizedKeys (reflector a) pk = (if pk \<in> set ks then Some () else None))"

lemma anchor_ok_reflector: "anchor_ok c fl k now ks a \<Longrightarrow> reflector_ok c (reflector a)"
  using signer_okD(1) [of c "NewEd25519Signer k"] position_wf
  by (auto simp: anchor_ok_def reflector_ok_def NewEd25519Signer_def)

text \<open>The time of the last stamp and the list of the last successful load, while the loops run.\<close>

fun stamp_after :: "gotime \<Rightarrow> anchor_event list \<Rightarrow> gotime" where
  "stamp_after t [] = t"
| "stamp_after t (RefreshTick now # es) = stamp_after now es"
| "stamp_after t (RefreshDone # es) = t"
| "stamp_after t (_ # es) = stamp_after t es"

fun allowlist_after :: "bytes list \<Rightarrow> anchor_event list \<Rightarrow> bytes list" where
  "allowlist_after ks [] = ks"
| "allowlist_after ks (ReloadTick f # es) =
     allowlist_after (case LoadAllowlist f of Ok ks' \<Rightarrow> ks' | _ \<Rightarrow> ks) es"
| "allowlist_after ks (ReloadDone # es) = ks"
| "allowlist_after ks (_ # es) = allowlist_after ks es"

text \<open>The three turns that change the reflector keep the anchor sound.\<close>

lemma anchor_packet_ok:
  assumes "anchor_ok c fl k now ks a"
  shows "\<exists>r. anchor_step c fl (Packet d) a = Ok (a\<lparr>reflector := r\<rparr>) \<and> anchor_ok c fl k now ks (a\<lparr>reflector := r\<rparr>)"
proof -
  obtain r out where h: "handle c d (reflector a) = (r, out)" by fastforce
  have "out \<noteq> Crash"
    using handle_no_crash [of c "reflector a" d] anchor_ok_reflector [OF assms] h by (simp add: reflector_ok_def)
  then have "anchor_step c fl (Packet d) a = Ok (a\<lparr>reflector := r\<rparr>)"
    using h by (simp add: reflector_turn_def split: outcome.splits)
  moreover have "anchor_ok c fl k now ks (a\<lparr>reflector := r\<rparr>)"
    using assms handle_frame [OF h] by (auto simp: anchor_ok_def)
  ultimately show ?thesis by blast
qed

lemma anchor_refresh_ok:
  assumes "anchor_ok c fl k now ks a" "refreshing a"
  shows "\<exists>r. anchor_step c fl (RefreshTick t) a = Ok (a\<lparr>reflector := r\<rparr>) \<and> anchor_ok c fl k t ks (a\<lparr>reflector := r\<rparr>)"
proof -
  from referenceOffset_ok [of c k fl t] assms(1) obtain lo where
    "referenceOffset c fl t (priv a) (self a) = Ok [Marshal lo]" "position_offset c fl t (drop 32 k) lo"
    by (auto simp: anchor_ok_def)
  with assms show ?thesis
    by (intro exI [of _ "SetOffsets [Marshal lo] (reflector a)"]) (auto simp: refreshLoop_turn_def refresh_tick_def anchor_ok_def)
qed

lemma anchor_reload_ok:
  assumes "anchor_ok c fl k now ks a" "reloading a" "LoadAllowlist f = Ok ks'"
  shows "\<exists>a1. anchor_step c fl (ReloadTick f) a = Ok a1 \<and> anchor_ok c fl k now ks' a1 \<and> refreshing a1 = refreshing a \<and> reloading a1"
  using assms
  by (intro exI [of _ "if int (length ks') \<noteq> previous a
       then a\<lparr>reflector := SetAuthorizedKeys ks' (reflector a), previous := int (length ks')\<rparr>
       else a\<lparr>reflector := SetAuthorizedKeys ks' (reflector a)\<rparr>"])
    (auto simp: reloadLoop_turn_def reload_tick_def anchor_ok_def SetAuthorizedKeys_sel Let_def)

lemma anchor_exec_ok:
  assumes "anchor_ok c fl k now ks a"
  shows "\<exists>a'. anchor_exec c fl es a = Ok a' \<and>
     anchor_ok c fl k (if refreshing a then stamp_after now es else now)
       (if reloading a then allowlist_after ks es else ks) a'"
  using assms
proof (induction es arbitrary: a now ks)
  case (Cons e es)
  have next_: ?case if "anchor_step c fl e a = Ok a1" "anchor_ok c fl k now1 ks1 a1"
     "(if refreshing a then stamp_after now (e # es) else now) = (if refreshing a1 then stamp_after now1 es else now1)"
     "(if reloading a then allowlist_after ks (e # es) else ks) = (if reloading a1 then allowlist_after ks1 es else ks1)" for a1 now1 ks1
    using Cons.IH [OF that(2)] that by (simp del: stamp_after.simps allowlist_after.simps)
  show ?case
  proof (cases e)
    case (Packet d)
    with anchor_packet_ok [OF Cons.prems, of d] show ?thesis by (elim exE conjE, intro next_) auto
  next
    case (RefreshTick t)
    show ?thesis
    proof (cases "refreshing a")
      case True
      with anchor_refresh_ok [OF Cons.prems True, of t] RefreshTick show ?thesis by (elim exE conjE, intro next_ [of _ t]) auto
    next
      case False
      then show ?thesis using Cons.prems RefreshTick by (intro next_ [of a now ks]) (simp_all add: refreshLoop_turn_def)
    qed
  next
    case (ReloadTick f)
    show ?thesis
    proof (cases "reloading a \<and> (\<exists>ks'. LoadAllowlist f = Ok ks')")
      case True
      then obtain ks' where l: "reloading a" "LoadAllowlist f = Ok ks'" by blast
      with anchor_reload_ok [OF Cons.prems l] ReloadTick show ?thesis by (elim exE conjE, intro next_ [of _ now ks']) auto
    next
      case False
      then show ?thesis
        using Cons.prems ReloadTick LoadAllowlist_no_panic [of f]
        by (intro next_ [of a now ks]) (auto simp: reloadLoop_turn_def reload_tick_def split: result.splits)
    qed
  next
    case RefreshDone
    then show ?thesis using Cons.prems
      by (intro next_ [of "if refreshing a then a\<lparr>refreshing := False\<rparr> else a" now ks]) (auto simp: refreshLoop_turn_def anchor_ok_def)
  next
    case ReloadDone
    then show ?thesis using Cons.prems
      by (intro next_ [of "if reloading a then a\<lparr>reloading := False\<rparr> else a" now ks]) (auto simp: reloadLoop_turn_def anchor_ok_def)
  qed
qed simp

section \<open>The start\<close>

lemma create_reflector_Ok:
  "create_reflector fl env k pub ks = Ok r \<longleftrightarrow>
   (\<exists>fds. NewLinuxReflector env (replyTimeout fl) (NewEd25519Signer k) pub ks (verify_interval fl) = (Inr r, fds))"
  by (auto simp: create_reflector_def NewReflector_def split: prod.splits sum.splits)

text \<open>What a successful start has done.\<close>

lemma start_Ok:
  assumes "start c fl env fs = (fs', Ok a)"
  shows "\<exists>ks r fds os. check_coordinates fl = Ok () \<and> LoadAllowlist (ae_allow env) = Ok ks
    \<and> PublicOf (priv a) = Ok (self a)
    \<and> NewLinuxReflector (ae_socket env) (replyTimeout fl) (NewEd25519Signer (priv a)) (self a) ks (verify_interval fl) = (Inr r, fds)
    \<and> referenceOffset c fl (ae_now env) (priv a) (self a) = Ok os
    \<and> a = \<lparr>reflector = SetOffsets os r, priv = priv a, self = self a, previous = -1, refreshing = True, reloading = True\<rparr>"
  using assms
  by (fastforce simp: start_def bind_r_eq_Ok create_reflector_Ok split: result.splits prod.splits)

lemma start_anchor_ok:
  assumes "start c fl env fs = (fs', Ok a)" "ed25519_ok c" "valid_key c (priv a)"
  obtains ks where "LoadAllowlist (ae_allow env) = Ok ks" "anchor_ok c fl (priv a) (ae_now env) ks a"
    "refreshing a" "reloading a" "self a = drop 32 (priv a)"
proof -
  from start_Ok [OF assms(1)] obtain ks r fds os where
    s: "LoadAllowlist (ae_allow env) = Ok ks" "PublicOf (priv a) = Ok (self a)"
    "NewLinuxReflector (ae_socket env) (replyTimeout fl) (NewEd25519Signer (priv a)) (self a) ks (verify_interval fl) = (Inr r, fds)"
    "referenceOffset c fl (ae_now env) (priv a) (self a) = Ok os"
    "a = \<lparr>reflector = SetOffsets os r, priv = priv a, self = self a, previous = -1, refreshing = True, reloading = True\<rparr>"
    by blast
  have sg: "signer_ok c (NewEd25519Signer (priv a))" using assms(2,3) by (simp add: signer_ok_def NewEd25519Signer_def)
  have pub: "self a = drop 32 (priv a)" using s(2) PublicOf_ok [of "priv a"] assms(3) by (simp add: valid_key_def)
  from referenceOffset_ok [OF sg, of fl "ae_now env"] s(4) pub obtain lo where
    lo: "os = [Marshal lo]" "position_offset c fl (ae_now env) (drop 32 (priv a)) lo" by auto
  have f: "reflector a = SetOffsets os r" "refreshing a" "reloading a" by (subst s(5), simp)+
  have "anchor_ok c fl (priv a) (ae_now env) ks a"
    using sg pub lo f NewLinuxReflector_Inr [OF s(3)] by (auto simp: anchor_ok_def)
  with s(1) f pub show thesis by (intro that)
qed

section \<open>The calls\<close>

text \<open>Every refresh passes the anchor's position, and every datagram is handled once and in order.\<close>

lemma calls_refresh:
  assumes "signer_ok c (NewEd25519Signer k)" "Refresh os \<in> set (reflector_calls c fl k (drop 32 k) f l es)"
  shows "\<exists>now lo. os = [Marshal lo] \<and> position_offset c fl now (drop 32 k) lo"
  using assms(2)
proof (induction es arbitrary: f l)
  case (Cons e es)
  show ?case
  proof (cases e)
    case (RefreshTick t)
    with Cons referenceOffset_ok [OF assms(1), of fl t] show ?thesis by (auto split: if_splits) blast
  qed (use Cons in \<open>auto split: result.splits if_splits\<close>)
qed simp

lemma calls_good:
  "signer_ok c (NewEd25519Signer k) \<Longrightarrow> \<forall>e \<in> set (reflector_calls c fl k (drop 32 k) f l es). good_event e"
  by (auto simp: good_event_def split: event.split dest!: calls_refresh dest: position_wf)

lemma calls_packets: "[d. Dg d \<leftarrow> reflector_calls c fl k pub f l es] = [d. Packet d \<leftarrow> es]"
  by (induction c fl k pub f l es rule: reflector_calls.induct) (auto split: result.splits)

text \<open>What a sound anchor sends.\<close>

lemma anchor_ok_sent:
  assumes ok: "anchor_ok c fl k t ks a" and s: "snd (handle c d (reflector a)) = Sent b to"
  shows "\<exists>rep lo now st. to = dg_from d \<and> UnmarshalReplyPacket b = Ok rep \<and> ReplyPacket_Verify c rep
      \<and> SenderPubkey (Probe rep) \<in> set ks
      \<and> AuthorityPubkey rep = drop 32 k \<and> GeoprobePubkey rep = drop 32 k
      \<and> Lat rep = lat fl \<and> Lng rep = lng fl \<and> MeasurementSlot rep = UnixNano t
      \<and> now = kernelTimestamp (dg_oob d) (dg_now_rx d) \<and> st = entry_state (reflector a) now (SenderPubkey (Probe rep))
      \<and> (if pairCount st = 0
         then RttNs rep = 0 \<and> SinceLastRxNs rep = randomNonce (dg_random d) \<and> \<not> Challenged rep
         else RttNs rep = (if IsZero (lastTxTime st) then 0 else Sub now (lastTxTime st)) \<and> SinceLastRxNs rep = RttNs rep
           \<and> (Challenged rep \<longleftrightarrow> nonce st \<noteq> 0 \<and> presentedNonce (Probe rep) = nonce st))
      \<and> Offsets rep = [Marshal lo] \<and> Unmarshal (Marshal lo) = Ok lo \<and> VerifyChain c lo = Ok ()
      \<and> o_AuthorityPubkey lo = drop 32 k \<and> o_Lat lo = lat fl \<and> o_Lng lo = lng fl"
proof -
  from ok obtain lo where lo: "offsets (reflector a) = [Marshal lo]" "position_offset c fl t (drop 32 k) lo"
    by (auto simp: anchor_ok_def)
  have r: "rsigner (reflector a) = NewEd25519Signer k" "geoprobePubkey (reflector a) = drop 32 k"
    "\<And>pk. authorizedKeys (reflector a) pk \<noteq> None \<Longrightarrow> pk \<in> set ks"
    using ok by (auto simp: anchor_ok_def split: if_splits)
  have u: "Unmarshal (Marshal lo) = Ok lo" using lo(2) offset_wire.dec_enc by (simp add: position_offset_def)
  have rtt: "reference_rtt (offsets (reflector a)) = 0" using location_position [OF lo(2)] lo(1) by (simp add: reference_rtt_def)
  from anchor_ok_reflector [OF ok] s show ?thesis
  proof (cases rule: sent_stepped)
    case (stepped p now st prt addr st2 since ch rep)
    have loc: "MeasurementSlot rep = UnixNano t" "Lat rep = lat fl" "Lng rep = lng fl"
      using stepped(23) location_position [OF lo(2)] lo(1) by simp_all
    have pair: "if pairCount st = 0 then RttNs rep = 0 \<and> SinceLastRxNs rep = randomNonce (dg_random d) \<and> \<not> Challenged rep
       else RttNs rep = (if IsZero (lastTxTime st) then 0 else Sub now (lastTxTime st)) \<and> SinceLastRxNs rep = RttNs rep
         \<and> (Challenged rep \<longleftrightarrow> nonce st \<noteq> 0 \<and> presentedNonce (Probe rep) = nonce st)"
      using pair_step_cases [OF stepped(9)] stepped(15,19,20,21) rtt by (cases "pairCount st = 0") simp_all
    show ?thesis
      by (rule exI [of _ rep], rule exI [of _ lo], rule exI [of _ now], rule exI [of _ st], intro conjI)
        (use stepped(2,3,5,11,13,15,16,17,18,22) r lo u loc pair in
          \<open>simp_all add: position_offset_def NewEd25519Signer_def\<close>)
  qed
qed

section \<open>An anchor that starts\<close>

definition sample_flags :: anchor_flags where
  "sample_flags = \<lparr>keyPath = ''k'', anchorID = [], lat = 0x4049C00000000000, lng = 0, verify_interval = 30000000000,
     replyTimeout = 0, refreshEvery = 60000000000, reloadEvery = 30000000000\<rparr>"

definition sample_anchor_env :: anchor_env where
  "sample_anchor_env = \<lparr>ae_gen = \<lparr>ge_stat_error = False, ge_random = Some (replicate 32 1), ge_mkdir_error = False, ge_write = Written\<rparr>,
     ae_read_error = False, ae_allow = FileData (concat (map (\<lambda>k. Format k @ [10]) [zeros 32])) False, ae_socket = sample_env,
     ae_now = sample_time 7\<rparr>"

lemma sample_coordinates: "f64_value 0x4049C00000000000 = 103 / 2" "\<not> is_nan 0x4049C00000000000" "f64_value 0 = 0" "\<not> is_nan 0"
  "is_nan 0x7FF8000000000001"
  by (simp_all add: f64_value_def f64_magnitude_def f64_negative_def f64_exponent_def f64_fraction_def is_nan_def)

lemma sample_check: "check_coordinates sample_flags = Ok ()"
  by (simp add: check_coordinates_def f64_eq_def f64_less_def sample_flags_def sample_coordinates)

lemma sample_allow: "LoadAllowlist (ae_allow sample_anchor_env) = Ok [zeros 32]"
  unfolding LoadAllowlist_def sample_anchor_env_def
  using scan_Format [of "[zeros 32]"] load_Format [of "[zeros 32]" Map.empty 1 "[]"] by (simp add: zeros_def)

lemma sample_start:
  obtains fs a where "start toy_ed25519 sample_flags sample_anchor_env Map.empty = (fs, Ok a)" "priv a = replicate 64 1"
proof -
  let ?k = "replicate 64 1 :: bytes"
  have k: "ed_NewKeyFromSeed toy_ed25519 (replicate 32 1) = ?k" by (simp add: toy_ed25519_def flip: replicate_add)
  have sg: "signer_ok toy_ed25519 (NewEd25519Signer ?k)" using toy_signer_ok by (simp add: toy_signer_def NewEd25519Signer_def)
  have l: "LoadOrGenerate toy_ed25519 (ae_gen sample_anchor_env) (ae_read_error sample_anchor_env) (keyPath sample_flags) Map.empty
      = ([''k'' \<mapsto> (json_Marshal_bytes ?k, key_mode)], True, Ok ?k)"
    by (simp add: LoadOrGenerate_def Generate_def sample_anchor_env_def sample_flags_def k Let_def)
  have p: "PublicOf ?k = Ok (drop 32 ?k)" by (simp add: PublicOf_ok)
  obtain r where r: "create_reflector sample_flags (ae_socket sample_anchor_env) ?k (drop 32 ?k) [zeros 32] = Ok r"
    by (simp add: create_reflector_def NewReflector_def NewLinuxReflector_def sample_env_def sample_anchor_env_def Let_def)
  from referenceOffset_ok [OF sg] obtain os where
    o: "referenceOffset toy_ed25519 sample_flags (ae_now sample_anchor_env) ?k (drop 32 ?k) = Ok os" by blast
  have d: "\<exists>x. displayID sample_flags (drop 32 ?k) = Ok x"
    using Format_line(4) [of "drop 32 ?k"] by (simp add: displayID_def sample_flags_def slice_def)
  have t: "NewTicker (refreshEvery sample_flags) = Ok ()" "NewTicker (reloadEvery sample_flags) = Ok ()"
    by (simp_all add: NewTicker_def sample_flags_def)
  show thesis
    by (rule that, unfold start_def) (use d in \<open>auto simp: sample_check l p sample_allow r o t simp del: drop_replicate\<close>)
qed

section \<open>Properties\<close>

lemma refreshed_sample_answers:
  assumes s: "start toy_ed25519 sample_flags sample_anchor_env Map.empty = (fs, Ok a0)" and v: "valid_key toy_ed25519 (priv a0)"
    and a: "anchor_exec toy_ed25519 sample_flags [RefreshTick t] a0 = Ok a"
  shows "\<exists>b. snd (handle toy_ed25519 (sample_dg 1 2 1000000) (reflector a)) = Sent b (dg_from (sample_dg 1 2 1000000))"
proof -
  let ?d = "sample_dg 1 2 1000000" and ?p = "sample_probe\<lparr>Sec := 1, Frac := 2\<rparr>"
  obtain ks where k: "anchor_ok toy_ed25519 sample_flags (priv a0) (ae_now sample_anchor_env) ks a0" "refreshing a0" "ks = [zeros 32]"
    using start_anchor_ok [OF s toy_ed25519_ok v] sample_allow by (metis result.inject(1))
  from anchor_exec_ok [OF k(1), of "[RefreshTick t]"] a obtain now' where
    a': "anchor_ok toy_ed25519 sample_flags (priv a0) now' ks a" by (auto split: if_splits)
  note ok = anchor_ok_reflector [OF a']
  have auth: "authorizedKeys (reflector a) (SenderPubkey ?p) \<noteq> None" using a' k(3) by (simp add: anchor_ok_def)
  from start_Ok [OF s] obtain r fds ks' os where
    n: "NewLinuxReflector (ae_socket sample_anchor_env) (replyTimeout sample_flags) (NewEd25519Signer (priv a0)) (self a0) ks'
         (verify_interval sample_flags) = (Inr r, fds)"
     "a0 = \<lparr>reflector = SetOffsets os r, priv = priv a0, self = self a0, previous = -1, refreshing = True, reloading = True\<rparr>" by blast
  have "senderStates (reflector a0) = Map.empty" by (subst n(2)) (simp add: NewLinuxReflector_Inr [OF n(1)])
  then have "senderStates (reflector a) = Map.empty" using a k(2) by (auto simp: refreshLoop_turn_def refresh_tick_def bind_r_eq_Ok)
  then have cur: "current_state (reflector a) pk = new_senderState" for pk by (simp add: current_state_def)
  then have lim: "\<not> rate_limited (reflector a) u (current_state (reflector a) pk)" for u pk
    by (simp add: rate_limited_def new_senderState_def)
  have ent: "pairCount (entry_state (reflector a) u pk) = 0" for u pk
    by (simp add: entry_state_def cur window_reset_def stale_reset_def new_senderState_def)
  obtain st2 since ch where ps: "pair_step (sample_time 1000000) (dg_random ?d) ?p
     (entry_state (reflector a) (sample_time 1000000) (zeros 32)\<lparr>pairSourceIP := [10, 0, 0, 1]\<rparr>) = (st2, since, ch)"
    by (metis prod_cases3)
  show ?thesis
    by (rule handle_answer [OF ok wf_sample_dg [of 1 2 1000000] auth refl lim, where prt = 4000 and addr = "[10, 0, 0, 1]"])
      (use ps ent in auto)
qed

text \<open>
  C25 (\<open>anchor_coordinates\<close>). Which coordinates an anchor starts with. The checks let a pair of
  coordinates pass exactly when they are not both zero (of either sign), the latitude is a NaN or
  between -90 and 90 and the longitude a NaN or between -180 and 180. When they do not pass, the anchor
  stops with the error before it reads or writes any file.
\<close>

theorem anchor_coordinates:
  "(check_coordinates fl = Ok () \<longleftrightarrow>
      \<not> (\<not> is_nan (lat fl) \<and> f64_value (lat fl) = 0 \<and> \<not> is_nan (lng fl) \<and> f64_value (lng fl) = 0)
      \<and> (is_nan (lat fl) \<or> - 90 \<le> f64_value (lat fl) \<and> f64_value (lat fl) \<le> 90)
      \<and> (is_nan (lng fl) \<or> - 180 \<le> f64_value (lng fl) \<and> f64_value (lng fl) \<le> 180))
   \<and> (check_coordinates fl \<noteq> Ok () \<longrightarrow>
        (\<exists>e \<in> {NullIsland, LatOutOfRange (lat fl), LngOutOfRange (lng fl)}.
           anchor_run c fl env fs es ended stopped = (fs, Err e)))"
  by (auto simp: check_coordinates_def f64_eq_def f64_less_def anchor_run_def start_def)

theorem anchor_coordinates_witness:
  "check_coordinates (sample_flags\<lparr>lat := 0x7FF8000000000001\<rparr>) = Ok ()
   \<and> fst (anchor_run toy_ed25519 (sample_flags\<lparr>lat := 0\<rparr>) sample_anchor_env Map.empty [] None False) = Map.empty"
proof -
  have "check_coordinates (sample_flags\<lparr>lat := 0\<rparr>) \<noteq> Ok ()"
    by (simp add: check_coordinates_def f64_eq_def sample_flags_def sample_coordinates)
  with anchor_coordinates [of "sample_flags\<lparr>lat := 0\<rparr>" toy_ed25519 sample_anchor_env Map.empty "[]" None False]
    anchor_coordinates [of "sample_flags\<lparr>lat := 0x7FF8000000000001\<rparr>" toy_ed25519 sample_anchor_env Map.empty "[]" None False]
  show ?thesis by (auto simp: sample_coordinates sample_flags_def)
qed

text \<open>
  C17 (\<open>anchor_refines_reflector\<close>). The anchor is a reflector run. Started with a valid key it never panics,
  and after any interleaving of datagrams, refresh ticks, reload ticks and the end of the loops its reflector is in the state that
  a freshly constructed reflector reaches by these calls in this order: \<open>SetOffsets\<close> with the position signed at
  the start; for each datagram, its handling; for each refresh tick while the refresh loop runs, \<open>SetOffsets\<close> with the position signed at the
  tick; for each reload tick while the reload loop runs, \<open>SetAuthorizedKeys\<close> with the keys of the file, and no call if the file could
  not be opened, read or parsed. So everything shown of reflector runs holds of the anchor: the calls handle every datagram
  once and in order, and each \<open>SetOffsets\<close> passes one well-formed offset, the anchor's signed position. In particular a
  file that is missing at a reload changes nothing: the previous allowlist stays in force.
\<close>

theorem anchor_refines_reflector:
  assumes "start c fl env fs = (fs', Ok a0)" "ed25519_ok c" "valid_key c (priv a0)"
    and "evs = reflector_calls c fl (priv a0) (self a0) True True (RefreshTick (ae_now env) # es)"
  shows "\<exists>ks r fds a. LoadAllowlist (ae_allow env) = Ok ks
     \<and> NewLinuxReflector (ae_socket env) (replyTimeout fl) (NewEd25519Signer (priv a0)) (self a0) ks (verify_interval fl) = (Inr r, fds)
     \<and> anchor_exec c fl es a0 = Ok a \<and> reflector a = exec c evs r
     \<and> (\<forall>e \<in> set evs. good_event e) \<and> [d. Dg d \<leftarrow> evs] = [d. Packet d \<leftarrow> es]
     \<and> (\<forall>os. Refresh os \<in> set evs \<longrightarrow> (\<exists>now lo. os = [Marshal lo] \<and> position_offset c fl now (self a0) lo))
     \<and> (\<exists>a'. anchor_exec c fl (es @ [ReloadTick CannotOpen]) a0 = Ok a' \<and> reflector a' = reflector a)"
proof -
  from start_Ok [OF assms(1)] obtain ks r fds os where
    s: "LoadAllowlist (ae_allow env) = Ok ks"
    "NewLinuxReflector (ae_socket env) (replyTimeout fl) (NewEd25519Signer (priv a0)) (self a0) ks (verify_interval fl) = (Inr r, fds)"
    "referenceOffset c fl (ae_now env) (priv a0) (self a0) = Ok os"
    "a0 = \<lparr>reflector = SetOffsets os r, priv = priv a0, self = self a0, previous = -1, refreshing = True, reloading = True\<rparr>"
    by blast
  have r: "reflector a0 = SetOffsets os r" "refreshing a0" "reloading a0" by (subst s(4), simp)+
  obtain ks' where ok: "anchor_ok c fl (priv a0) (ae_now env) ks' a0" and self: "self a0 = drop 32 (priv a0)"
    using start_anchor_ok [OF assms(1-3)] by metis
  have sg: "signer_ok c (NewEd25519Signer (priv a0))" using ok by (simp add: anchor_ok_def)
  have run: "\<exists>a. anchor_exec c fl xs a0 = Ok a
      \<and> reflector a = exec c (reflector_calls c fl (priv a0) (self a0) True True (RefreshTick (ae_now env) # xs)) r" for xs
    using anchor_exec_ok [OF ok, of xs] anchor_exec_refines [of c fl xs a0] r s(3) by (auto simp: apply_event_def)
  from run [of es] run [of "es @ [ReloadTick CannotOpen]"]
  have "\<exists>a. anchor_exec c fl es a0 = Ok a \<and> reflector a = exec c evs r
     \<and> (\<exists>a'. anchor_exec c fl (es @ [ReloadTick CannotOpen]) a0 = Ok a' \<and> reflector a' = reflector a)"
    by (auto simp: assms(4) reflector_calls_append LoadAllowlist_def)
  moreover have "\<forall>e \<in> set evs. good_event e" "[d. Dg d \<leftarrow> evs] = [d. Packet d \<leftarrow> es]"
    using calls_good [OF sg] calls_packets [of c fl "priv a0" "self a0" True True "RefreshTick (ae_now env) # es"]
    unfolding assms(4) self by (blast, simp)
  moreover have "\<exists>now lo. os = [Marshal lo] \<and> position_offset c fl now (self a0) lo" if "Refresh os \<in> set evs" for os
    using calls_refresh [OF sg] that unfolding assms(4) self by blast
  ultimately show ?thesis using s(1,2) by blast
qed

theorem anchor_refines_reflector_witness:
  "\<exists>fs a0 a r os. start toy_ed25519 sample_flags sample_anchor_env Map.empty = (fs, Ok a0)
     \<and> anchor_exec toy_ed25519 sample_flags
         [Packet (sample_dg 1 2 1000000), ReloadTick CannotOpen, ReloadTick (ae_allow sample_anchor_env), RefreshDone, RefreshTick (sample_time 9)] a0 = Ok a
     \<and> reflector a = exec toy_ed25519 [Refresh os, Dg (sample_dg 1 2 1000000), Reload [zeros 32]] r"
proof -
  obtain fs a0 where s: "start toy_ed25519 sample_flags sample_anchor_env Map.empty = (fs, Ok a0)" "priv a0 = replicate 64 1"
    by (rule sample_start)
  have v: "valid_key toy_ed25519 (priv a0)" using toy_signer_ok s(2) by (simp add: signer_ok_def toy_signer_def)
  let ?es = "[Packet (sample_dg 1 2 1000000), ReloadTick CannotOpen, ReloadTick (ae_allow sample_anchor_env), RefreshDone, RefreshTick (sample_time 9)]"
  have c: "LoadAllowlist CannotOpen = Err OpenAllowlist" by (simp add: LoadAllowlist_def)
  obtain os where os: "referenceOffset toy_ed25519 sample_flags (ae_now sample_anchor_env) (priv a0) (self a0) = Ok os"
    using start_Ok [OF s(1)] by blast
  have calls: "reflector_calls toy_ed25519 sample_flags (priv a0) (self a0) True True (RefreshTick (ae_now sample_anchor_env) # ?es)
      = [Refresh os, Dg (sample_dg 1 2 1000000), Reload [zeros 32]]"
    by (simp add: os c sample_allow split: result.split)
  from anchor_refines_reflector [OF s(1) toy_ed25519_ok v refl, of ?es] s(1) show ?thesis unfolding calls by blast
qed

text \<open>
  C3 (\<open>anchor_replies\<close>). What a running anchor answers. Started with a valid key, the anchor never
  panics, whatever datagrams arrive and however the refresh and reload ticks fall between them. Every
  reply it sends is signed with its key, goes to a sender of the allowlist that was last loaded without
  an error (a reload that finds the file missing or malformed keeps the list), carries the coordinates of the
  command line and the time of the last refresh, and one reference offset, which decodes to the anchor's own signed
  statement of that position. The figures are those of the pair as the probe finds it: the reply that begins a pair signs
  an RTT of zero, carries the drawn nonce and is not challenged; every other reply signs as its RTT the time
  from the last reply to the sender to the arrival of the probe (zero if that reply's time is the zero time), has the
  same value as its interval, and is challenged exactly when the probe presents the nonce of the pair.
\<close>

theorem anchor_replies:
  assumes "start c fl env fs = (fs', Ok a0)" "ed25519_ok c" "valid_key c (priv a0)"
    and "LoadAllowlist (ae_allow env) = Ok ks"
  shows "\<exists>a. anchor_exec c fl es a0 = Ok a \<and> (\<forall>d b to. snd (handle c d (reflector a)) = Sent b to \<longrightarrow>
    (\<exists>rep lo now st. to = dg_from d \<and> UnmarshalReplyPacket b = Ok rep \<and> ReplyPacket_Verify c rep
      \<and> SenderPubkey (Probe rep) \<in> set (allowlist_after ks es)
      \<and> AuthorityPubkey rep = self a0 \<and> GeoprobePubkey rep = self a0
      \<and> Lat rep = lat fl \<and> Lng rep = lng fl \<and> MeasurementSlot rep = UnixNano (stamp_after (ae_now env) es)
      \<and> now = kernelTimestamp (dg_oob d) (dg_now_rx d) \<and> st = entry_state (reflector a) now (SenderPubkey (Probe rep))
      \<and> (if pairCount st = 0
         then RttNs rep = 0 \<and> SinceLastRxNs rep = randomNonce (dg_random d) \<and> \<not> Challenged rep
         else RttNs rep = (if IsZero (lastTxTime st) then 0 else Sub now (lastTxTime st)) \<and> SinceLastRxNs rep = RttNs rep
           \<and> (Challenged rep \<longleftrightarrow> nonce st \<noteq> 0 \<and> presentedNonce (Probe rep) = nonce st))
      \<and> Offsets rep = [Marshal lo] \<and> Unmarshal (Marshal lo) = Ok lo \<and> VerifyChain c lo = Ok ()
      \<and> o_AuthorityPubkey lo = self a0 \<and> o_Lat lo = lat fl \<and> o_Lng lo = lng fl))"
proof -
  obtain ok: "anchor_ok c fl (priv a0) (ae_now env) ks a0" and f: "refreshing a0" "reloading a0" "self a0 = drop 32 (priv a0)"
    using start_anchor_ok [OF assms(1-3)] assms(4) by (metis result.inject(1))
  from anchor_exec_ok [OF ok, of es] f obtain a where a: "anchor_exec c fl es a0 = Ok a"
    "anchor_ok c fl (priv a0) (stamp_after (ae_now env) es) (allowlist_after ks es) a" by auto
  from anchor_ok_sent [OF a(2), folded f(3)] a(1) show ?thesis by blast
qed

theorem anchor_replies_witness:
  "\<exists>fs a0 a b rep. start toy_ed25519 sample_flags sample_anchor_env Map.empty = (fs, Ok a0)
     \<and> anchor_exec toy_ed25519 sample_flags [RefreshTick (sample_time 9)] a0 = Ok a
     \<and> snd (handle toy_ed25519 (sample_dg 1 2 1000000) (reflector a)) = Sent b (SockaddrInet4 4000 [10, 0, 0, 1])
     \<and> UnmarshalReplyPacket b = Ok rep \<and> f64_value (Lat rep) = 103 / 2 \<and> MeasurementSlot rep = 9"
proof -
  let ?d = "sample_dg 1 2 1000000" and ?es = "[RefreshTick (sample_time 9)]"
  obtain fs a0 where s: "start toy_ed25519 sample_flags sample_anchor_env Map.empty = (fs, Ok a0)" "priv a0 = replicate 64 1"
    by (rule sample_start)
  have v: "valid_key toy_ed25519 (priv a0)" using toy_signer_ok s(2) by (simp add: signer_ok_def toy_signer_def)
  from anchor_replies [OF s(1) toy_ed25519_ok v sample_allow, of ?es] obtain a where
    a: "anchor_exec toy_ed25519 sample_flags ?es a0 = Ok a" and
    rep: "\<And>d b to. snd (handle toy_ed25519 d (reflector a)) = Sent b to \<Longrightarrow>
      \<exists>rep. UnmarshalReplyPacket b = Ok rep \<and> Lat rep = lat sample_flags \<and> MeasurementSlot rep = UnixNano (sample_time 9)"
    by (auto simp del: anchor_exec.simps) blast
  obtain b where b: "snd (handle toy_ed25519 ?d (reflector a)) = Sent b (dg_from ?d)"
    using refreshed_sample_answers [OF s(1) v a] by blast
  from rep [OF b] obtain rep where "UnmarshalReplyPacket b = Ok rep" "Lat rep = lat sample_flags" "MeasurementSlot rep = UnixNano (sample_time 9)"
    by blast
  with s(1) a b show ?thesis
    by (intro exI [of _ fs] exI [of _ a0] exI [of _ a] exI [of _ b] exI [of _ rep])
      (simp add: sample_flags_def sample_coordinates UnixNano_def sample_time_def)
qed

end
