(* ===== verification/Sender.thy ===== *)
theory Sender
  imports Packet Kernel_Time
begin

text \<open>
  The attester's sender (\<open>internal/signed/sender_linux.go\<close>, \<open>sender.go\<close>): one probe or a pair of
  probes is sent to an anchor, and the replies are awaited in a busy-poll loop and a blocking loop.
  The environment is a script: one \<open>poll\<close> for each time a loop head is reached, with what the clock,
  \<open>epoll_wait\<close> and \<open>recvmsg\<close> return there. A script that ends before the loop has returned leaves the
  caller waiting.
\<close>

section \<open>State\<close>

record LinuxSender =
  s_fd :: nat
  s_epfd :: nat
  seq :: uint32
  remote :: "nat \<times> bytes"
  signer :: Ed25519Signer
  remotePubkey :: bytes
  challenged :: bool

definition defaultProbeTimeout :: duration where "defaultProbeTimeout = 1000000000"
definition busyPollWindow :: duration where "busyPollWindow = 15000000"

datatype ctx_error = CtxCanceled | CtxDeadline

datatype send_error =
    MarshalProbe packet_error
  | Sendto errno
  | EpollWait errno
  | Ctx ctx_error
  | Recvmsg errno
  | ParseCmsg
  | NoTimestamp
  | UnmarshalReply0 packet_error
  | TimestampMismatch
  | AtProbe0 send_error
  | AtProbe1 send_error
  | Panicked

datatype 'a waiting = Returns "send_error + 'a" | Waiting

record ProbePairResult =
  RTT0 :: duration
  RTT1 :: duration
  Reply0 :: ReplyPacket
  Reply1 :: ReplyPacket

section \<open>Round-trip time\<close>

definition decideRTT :: "gotime \<Rightarrow> gotime \<Rightarrow> gotime \<Rightarrow> duration" where
  "decideRTT sendTime kernelRecvTime fallbackRecvTime =
     (let rtt = Sub kernelRecvTime sendTime;
          rtt = (if sint rtt < - 100000 then Sub fallbackRecvTime sendTime else rtt)
      in if sint rtt \<ge> 0 then rtt else 0)"

section \<open>One reply\<close>

text \<open>What \<open>recvmsg\<close> returns: an error, or a datagram, its ancillary data, and \<open>time.Now()\<close> after it.\<close>

datatype recv = NoMsg errno | RecvMsg bytes bytes gotime

text \<open>
  \<open>tryRecv\<close>: \<open>None\<close> when the caller should keep polling, otherwise a definitive result.
\<close>

definition tryRecv ::
    "ed25519 \<Rightarrow> LinuxSender \<Rightarrow> gotime \<Rightarrow> ProbePacket \<Rightarrow> bool \<Rightarrow> recv \<Rightarrow>
     (send_error + duration \<times> ReplyPacket) option" where
  "tryRecv c s sendTime probe verify r =
     (case r of
        NoMsg e \<Rightarrow> if e = EAGAIN \<or> e = EWOULDBLOCK then None else Some (Inl (Recvmsg e))
      | RecvMsg buf oob fallbackRecvTime \<Rightarrow>
          if length buf < MinReplyPacketSize \<or> length buf > MaxReplyPacketSize then None
          else case UnmarshalReplyPacket buf of
            Panic \<Rightarrow> Some (Inl Panicked)
          | Err _ \<Rightarrow> None
          | Ok reply \<Rightarrow>
              if Seq (Probe reply) \<noteq> Seq probe \<or> Sec (Probe reply) \<noteq> Sec probe \<or> Frac (Probe reply) \<noteq> Frac probe
              then None
              else if verify \<and> \<not> ProbePacket_Verify c (Probe reply) then None
              else if verify \<and> AuthorityPubkey reply \<noteq> remotePubkey s then None
              else if verify \<and> \<not> ReplyPacket_Verify c reply then None
              else case ParseSocketControlMessage oob of
                None \<Rightarrow> Some (Inl ParseCmsg)
              | Some cmsgs \<Rightarrow>
                  (case find_timestamp cmsgs of
                     Some kernelRecvTime \<Rightarrow> Some (Inr (decideRTT sendTime kernelRecvTime fallbackRecvTime, reply))
                   | None \<Rightarrow> Some (Inl NoTimestamp)))"

section \<open>The two polling loops\<close>

record poll =
  po_ctx :: "ctx_error option"
  po_now :: gotime
  po_epoll :: "int \<times> errno option"
  po_recv :: recv

datatype 'a poll_end = Got 'a | WindowOver | Failed send_error | Pending

text \<open>Busy polling until the window is over; each loop head takes one element of the script.\<close>

fun busy_loop :: "(recv \<Rightarrow> 'a option) \<Rightarrow> gotime \<Rightarrow> poll list \<Rightarrow> 'a poll_end \<times> poll list" where
  "busy_loop receive busyPollDeadline [] = (Pending, [])"
| "busy_loop receive busyPollDeadline (e # es) =
     (if \<not> Before (po_now e) busyPollDeadline then (WindowOver, es)
      else case po_epoll e of (n, err) \<Rightarrow>
        if err \<noteq> None \<and> err \<noteq> Some EINTR then (Failed (EpollWait (the err)), es)
        else if n > 0 then
          (case receive (po_recv e) of Some x \<Rightarrow> (Got x, es) | None \<Rightarrow> busy_loop receive busyPollDeadline es)
        else busy_loop receive busyPollDeadline es)"

fun block_loop :: "(recv \<Rightarrow> 'a option) \<Rightarrow> gotime \<Rightarrow> poll list \<Rightarrow> 'a poll_end \<times> poll list" where
  "block_loop receive deadline [] = (Pending, [])"
| "block_loop receive deadline (e # es) =
     (case po_ctx e of
        Some c \<Rightarrow> (Failed (Ctx c), es)
      | None \<Rightarrow>
          if remaining_ms deadline (po_now e) \<le> 0 then (Failed (Ctx CtxDeadline), es)
          else case po_epoll e of (n, err) \<Rightarrow>
            if err \<noteq> None \<and> err \<noteq> Some EINTR then (Failed (EpollWait (the err)), es)
            else if n = 0 then (Failed (Ctx CtxDeadline), es)
            else case receive (po_recv e) of Some x \<Rightarrow> (Got x, es) | None \<Rightarrow> block_loop receive deadline es)"

text \<open>The busy loop, and the blocking loop when the window is over without a result.\<close>

definition await :: "(recv \<Rightarrow> 'a option) \<Rightarrow> gotime option \<Rightarrow> gotime \<Rightarrow> poll list \<Rightarrow> 'a poll_end \<times> poll list" where
  "await receive busy deadline es =
     (case busy of
        None \<Rightarrow> block_loop receive deadline es
      | Some busyPollDeadline \<Rightarrow>
          (case busy_loop receive busyPollDeadline es of
             (WindowOver, es') \<Rightarrow> block_loop receive deadline es'
           | r \<Rightarrow> r))"

section \<open>Sending a probe and waiting for its reply\<close>

text \<open>
  The environment of one exchange: \<open>time.Now()\<close> before \<open>sendto\<close> and its result, the deadline of the
  context, \<open>time.Now()\<close> for the default deadline, and the script of the loops.
\<close>

record exchange =
  ex_now :: gotime
  ex_sendto :: "errno option"
  ex_deadline :: "gotime option"
  ex_now2 :: gotime
  ex_polls :: "poll list"

definition ex_limit :: "exchange \<Rightarrow> gotime" where
  "ex_limit env = (case ex_deadline env of Some d \<Rightarrow> d | None \<Rightarrow> Add (ex_now2 env) defaultProbeTimeout)"

text \<open>The result is the list of datagrams sent to \<open>remote\<close> and what is returned.\<close>

definition sendAndRecv ::
    "ed25519 \<Rightarrow> LinuxSender \<Rightarrow> bytes \<Rightarrow> ProbePacket \<Rightarrow> bool \<Rightarrow> duration \<Rightarrow> exchange \<Rightarrow>
     bytes list \<times> (duration \<times> ReplyPacket) waiting" where
  "sendAndRecv c s probeBuf probe verify busyPollDuration env =
     (case ex_sendto env of
        Some e \<Rightarrow> ([], Returns (Inl (Sendto e)))
      | None \<Rightarrow>
          ([probeBuf],
           case fst (await (tryRecv c s (ex_now env) probe verify)
              (if sint busyPollDuration > 0 then Some (Add (ex_now env) busyPollDuration) else None)
              (ex_limit env) (ex_polls env)) of
             Got r \<Rightarrow> Returns r
           | Failed e \<Rightarrow> Returns (Inl e)
           | _ \<Rightarrow> Waiting))"

text \<open>Building and marshalling a probe into a buffer of \<open>ProbePacketSize\<close> bytes.\<close>

definition marshalled :: "(packet_error, ProbePacket) result \<Rightarrow> send_error + ProbePacket \<times> bytes" where
  "marshalled m =
     (case m of
        Ok probe \<Rightarrow>
          (case ProbePacket_Marshal probe (zeros ProbePacketSize) of
             Ok buf \<Rightarrow> Inr (probe, buf) | Err e \<Rightarrow> Inl (MarshalProbe e) | Panic \<Rightarrow> Inl Panicked)
      | Err e \<Rightarrow> Inl (MarshalProbe e)
      | Panic \<Rightarrow> Inl Panicked)"

definition next_seq :: "LinuxSender \<Rightarrow> LinuxSender" where
  "next_seq s = s\<lparr>seq := seq s + 1\<rparr>"

definition Sender_Probe ::
    "ed25519 \<Rightarrow> gotime \<Rightarrow> exchange \<Rightarrow> LinuxSender \<Rightarrow>
     LinuxSender \<times> bytes list \<times> (duration \<times> ReplyPacket) waiting" where
  "Sender_Probe c now env s =
     (let s = next_seq s in
      case marshalled (NewProbePacket c now (seq s) (signer s)) of
        Inl e \<Rightarrow> (s, [], Returns (Inl e))
      | Inr (probe, buf) \<Rightarrow> (s, sendAndRecv c s buf probe True 0 env))"

section \<open>Challenged pairs\<close>

definition probePairChallenged ::
    "ed25519 \<Rightarrow> gotime \<Rightarrow> exchange \<Rightarrow> exchange \<Rightarrow> LinuxSender \<Rightarrow>
     LinuxSender \<times> bytes list \<times> ProbePairResult waiting" where
  "probePairChallenged c now env0 env1 s =
     (let s = next_seq s in
      case marshalled (NewProbePacket c now (seq s) (signer s)) of
        Inl e \<Rightarrow> (s, [], Returns (Inl (AtProbe0 e)))
      | Inr (probe0, buf0) \<Rightarrow>
     (case sendAndRecv c s buf0 probe0 False busyPollWindow env0 of
        (sent0, Waiting) \<Rightarrow> (s, sent0, Waiting)
      | (sent0, Returns (Inl e)) \<Rightarrow> (s, sent0, Returns (Inl (AtProbe0 e)))
      | (sent0, Returns (Inr (rtt0, reply0))) \<Rightarrow>
     (let s = next_seq s;
          nonce = SinceLastRxNs reply0
      in case marshalled (newChallengedProbePacket c (seq s) (signer s) nonce) of
        Inl e \<Rightarrow> (s, sent0, Returns (Inl (AtProbe1 e)))
      | Inr (probe1, buf1) \<Rightarrow>
     (case sendAndRecv c s buf1 probe1 True busyPollWindow env1 of
        (sent1, Waiting) \<Rightarrow> (s, sent0 @ sent1, Waiting)
      | (sent1, Returns (Inl e)) \<Rightarrow> (s, sent0 @ sent1, Returns (Inl (AtProbe1 e)))
      | (sent1, Returns (Inr (rtt1, reply1))) \<Rightarrow>
          (s, sent0 @ sent1, Returns (Inr \<lparr>RTT0 = rtt0, RTT1 = rtt1, Reply0 = reply0, Reply1 = reply1\<rparr>))))))"

section \<open>Unchallenged pairs\<close>

text \<open>
  The closure \<open>recvAndFireProbe1\<close>: a datagram of a reply's size whose first four bytes are the sequence
  number of probe 0 fires probe 1; nothing else of it is looked at yet. \<open>fire\<close> is \<open>time.Now()\<close> before
  the second \<open>sendto\<close> and its result.
\<close>

definition recvAndFireProbe1 ::
    "ProbePacket \<Rightarrow> gotime \<times> errno option \<Rightarrow> recv \<Rightarrow> (send_error + bytes \<times> bytes) option" where
  "recvAndFireProbe1 probe0 fire r =
     (case r of
        NoMsg e \<Rightarrow> if e = EAGAIN \<or> e = EWOULDBLOCK then None else Some (Inl (AtProbe0 (Recvmsg e)))
      | RecvMsg buf oob _ \<Rightarrow>
          if length buf < MinReplyPacketSize \<or> length buf > MaxReplyPacketSize then None
          else case (be_Uint32 (take 4 buf) :: (packet_error, uint32) result) of
            Ok v \<Rightarrow>
              if v \<noteq> Seq probe0 then None
              else (case snd fire of Some e \<Rightarrow> Some (Inl (AtProbe0 (AtProbe1 (Sendto e)))) | None \<Rightarrow> Some (Inr (buf, oob)))
          | _ \<Rightarrow> Some (Inl Panicked))"

text \<open>Reply 0, parsed after probe 1 has been sent: no signature is checked and the RTT is 0 without a timestamp.\<close>

definition parse_reply0 ::
    "gotime \<Rightarrow> gotime \<Rightarrow> ProbePacket \<Rightarrow> bytes \<Rightarrow> bytes \<Rightarrow> send_error + duration \<times> ReplyPacket" where
  "parse_reply0 send0Time fallback0Time probe0 buf oob =
     (case UnmarshalReplyPacket buf of
        Panic \<Rightarrow> Inl Panicked
      | Err e \<Rightarrow> Inl (UnmarshalReply0 e)
      | Ok reply0 \<Rightarrow>
          if Sec (Probe reply0) \<noteq> Sec probe0 \<or> Frac (Probe reply0) \<noteq> Frac probe0 then Inl TimestampMismatch
          else case ParseSocketControlMessage oob of
            None \<Rightarrow> Inl ParseCmsg
          | Some cmsgs \<Rightarrow>
              Inr (case find_timestamp cmsgs of
                     None \<Rightarrow> 0 | Some kernelRecvTime \<Rightarrow> decideRTT send0Time kernelRecvTime fallback0Time,
                   reply0))"

text \<open>
  The environment of an unchallenged pair: the clock readings for the two pre-signed probes, the
  exchange for probe 0 with its script, the second transmission, \<open>time.Now()\<close> after reply 0, and the
  script of the loop that waits for reply 1.
\<close>

record pair_env =
  pe_now0 :: gotime
  pe_now1 :: gotime
  pe_exchange :: exchange
  pe_fire :: "gotime \<times> errno option"
  pe_fallback0 :: gotime
  pe_polls1 :: "poll list"

definition probePairUnchallenged ::
    "ed25519 \<Rightarrow> pair_env \<Rightarrow> LinuxSender \<Rightarrow> LinuxSender \<times> bytes list \<times> ProbePairResult waiting" where
  "probePairUnchallenged c env s =
     (let s = next_seq s in
      case marshalled (NewProbePacket c (pe_now0 env) (seq s) (signer s)) of
        Inl e \<Rightarrow> (s, [], Returns (Inl (AtProbe0 e)))
      | Inr (probe0, buf0) \<Rightarrow>
     (let s = next_seq s in
      case marshalled (NewProbePacket c (pe_now1 env) (seq s) (signer s)) of
        Inl e \<Rightarrow> (s, [], Returns (Inl (AtProbe1 e)))
      | Inr (probe1, buf1) \<Rightarrow>
     (let deadline = ex_limit (pe_exchange env);
          send0Time = ex_now (pe_exchange env)
      in case ex_sendto (pe_exchange env) of
        Some e \<Rightarrow> (s, [], Returns (Inl (AtProbe0 (Sendto e))))
      | None \<Rightarrow>
     (case fst (await (recvAndFireProbe1 probe0 (pe_fire env)) (Some (Add send0Time busyPollWindow))
         deadline (ex_polls (pe_exchange env))) of
        Failed e \<Rightarrow> (s, [buf0], Returns (Inl e))
      | Got (Inl e) \<Rightarrow> (s, [buf0], Returns (Inl e))
      | Got (Inr (reply0Buf, reply0Ctl)) \<Rightarrow>
         (case parse_reply0 send0Time (pe_fallback0 env) probe0 reply0Buf reply0Ctl of
            Inl e \<Rightarrow> (s, [buf0, buf1], Returns (Inl e))
          | Inr (rtt0, reply0) \<Rightarrow>
             (case fst (block_loop (tryRecv c s (fst (pe_fire env)) probe1 True) deadline (pe_polls1 env)) of
                Failed e \<Rightarrow> (s, [buf0, buf1], Returns (Inl e))
              | Got (Inl e) \<Rightarrow> (s, [buf0, buf1], Returns (Inl (AtProbe1 e)))
              | Got (Inr (rtt1, reply1)) \<Rightarrow>
                  (s, [buf0, buf1],
                   Returns (Inr \<lparr>RTT0 = rtt0, RTT1 = rtt1, Reply0 = reply0, Reply1 = reply1\<rparr>))
              | _ \<Rightarrow> (s, [buf0, buf1], Waiting)))
      | _ \<Rightarrow> (s, [buf0], Waiting)))))"

definition ProbePair ::
    "ed25519 \<Rightarrow> pair_env \<Rightarrow> exchange \<Rightarrow> LinuxSender \<Rightarrow> LinuxSender \<times> bytes list \<times> ProbePairResult waiting" where
  "ProbePair c env env1 s =
     (if challenged s then probePairChallenged c (pe_now0 env) (pe_exchange env) env1 s
      else probePairUnchallenged c env s)"

section \<open>Construction and shutdown\<close>

datatype new_sender_error = SenderSocketErr errno | BindToDevice errno | SenderBindErr errno | SenderEpollCreateErr errno
  | SenderEpollCtlErr errno | SenderTimestampErr errno | RemoteNotIPv4

record sender_env =
  sn_socket :: "errno + nat"
  sn_bindtodevice :: "errno option"
  sn_bind :: "errno option"
  sn_epoll_create :: "errno + nat"
  sn_epoll_ctl :: "errno option"
  sn_timestampns :: "errno option"

text \<open>
  \<open>iface\<close> is the interface to bind to (empty for none), \<open>local\<close> the local port if an address is given,
  \<open>remote\<close> the port and \<open>IP.To4()\<close> of the remote address. The result carries the open descriptors.
\<close>

definition NewLinuxSender ::
    "sender_env \<Rightarrow> string \<Rightarrow> nat option \<Rightarrow> nat \<times> bytes option \<Rightarrow> Ed25519Signer \<Rightarrow> bytes \<Rightarrow> bool \<Rightarrow>
     (new_sender_error + LinuxSender) \<times> nat set" where
  "NewLinuxSender env iface lcl rmt sgnr rpk chal =
     (case sn_socket env of
        Inl e \<Rightarrow> (Inl (SenderSocketErr e), {})
      | Inr sock \<Rightarrow>
     let fds = {sock} in
     if iface \<noteq> '''' \<and> sn_bindtodevice env \<noteq> None then (Inl (BindToDevice (the (sn_bindtodevice env))), fds - {sock})
     else if lcl \<noteq> None \<and> sn_bind env \<noteq> None then (Inl (SenderBindErr (the (sn_bind env))), fds - {sock})
     else
     (case sn_epoll_create env of
        Inl e \<Rightarrow> (Inl (SenderEpollCreateErr e), fds - {sock})
      | Inr ep \<Rightarrow>
     let fds = insert ep fds in
     (case sn_epoll_ctl env of
        Some e \<Rightarrow> (Inl (SenderEpollCtlErr e), fds - {sock} - {ep})
      | None \<Rightarrow>
     (case sn_timestampns env of
        Some e \<Rightarrow> (Inl (SenderTimestampErr e), fds - {sock} - {ep})
      | None \<Rightarrow>
     (case rmt of
        (_, None) \<Rightarrow> (Inl RemoteNotIPv4, fds - {sock} - {ep})
      | (rport, Some ip4) \<Rightarrow>
          (Inr \<lparr>s_fd = sock, s_epfd = ep, seq = 0, remote = (rport, go_copy (zeros 4) ip4), signer = sgnr,
             remotePubkey = rpk, challenged = chal\<rparr>, fds))))))"

definition NewSender ::
    "sender_env \<Rightarrow> string \<Rightarrow> nat option \<Rightarrow> nat \<times> bytes option \<Rightarrow> Ed25519Signer \<Rightarrow> bytes \<Rightarrow> bool \<Rightarrow>
     (new_sender_error + LinuxSender) \<times> nat set" where
  "NewSender = NewLinuxSender"

text \<open>\<open>Close\<close> closes both descriptors.\<close>

definition Sender_Close :: "LinuxSender \<Rightarrow> nat set \<Rightarrow> nat set" where
  "Sender_Close s fds = fds - {s_fd s} - {s_epfd s}"

section \<open>The loops\<close>

text \<open>A result of the loops is the result of a datagram in the script.\<close>

lemma busy_loop_sound:
  "fst (busy_loop receive dl es) = Got x \<Longrightarrow> \<exists>e \<in> set es. receive (po_recv e) = Some x"
  "set (snd (busy_loop receive dl es)) \<subseteq> set es"
  by (induction es) (auto split: if_splits prod.splits option.splits)

lemma block_loop_sound:
  "fst (block_loop receive dl es) = Got x \<Longrightarrow> \<exists>e \<in> set es. receive (po_recv e) = Some x"
  by (induction es) (auto split: if_splits prod.splits option.splits)

lemma await_sound:
  assumes "fst (await receive busy dl es) = Got x"
  shows "\<exists>e \<in> set es. receive (po_recv e) = Some x"
proof (cases busy)
  case None
  with assms block_loop_sound show ?thesis by (auto simp: await_def)
next
  case (Some b)
  obtain r es' where l: "busy_loop receive b es = (r, es')" by fastforce
  show ?thesis
    using assms Some l busy_loop_sound [of receive b es] block_loop_sound [of receive dl es']
    by (cases r) (auto simp: await_def)
qed

text \<open>Once the clock has reached the deadline the blocking loop has returned.\<close>

lemma block_loop_returns:
  "\<exists>e \<in> set es. remaining_ms dl (po_now e) \<le> 0 \<Longrightarrow> fst (block_loop receive dl es) \<noteq> Pending
     \<and> fst (block_loop receive dl es) \<noteq> WindowOver"
  by (induction es) (auto split: if_splits prod.splits option.splits)

lemma busy_loop_returns:
  assumes "\<not> Before (po_now e) b"
  shows "fst (busy_loop receive b (xs @ e # ys)) = WindowOver \<and>
      (\<exists>zs. snd (busy_loop receive b (xs @ e # ys)) = zs @ ys)
    \<or> (\<exists>x. fst (busy_loop receive b (xs @ e # ys)) = Got x) \<or> (\<exists>f. fst (busy_loop receive b (xs @ e # ys)) = Failed f)"
proof (induction xs)
  case Nil
  with assms show ?case by simp
next
  case (Cons a xs)
  then show ?case by (auto split: prod.splits option.splits)
qed

lemma await_returns:
  assumes "busy = None \<and> es = ys \<or> (\<exists>b e xs. busy = Some b \<and> es = xs @ e # ys \<and> \<not> Before (po_now e) b)"
    and "\<exists>e \<in> set ys. remaining_ms dl (po_now e) \<le> 0"
  shows "fst (await receive busy dl es) \<noteq> Pending \<and> fst (await receive busy dl es) \<noteq> WindowOver"
  using assms(1)
proof
  assume "busy = None \<and> es = ys"
  with block_loop_returns [OF assms(2)] show ?thesis by (simp add: await_def)
next
  assume "\<exists>b e xs. busy = Some b \<and> es = xs @ e # ys \<and> \<not> Before (po_now e) b"
  then obtain b e xs where b: "busy = Some b" "es = xs @ e # ys" "\<not> Before (po_now e) b" by blast
  obtain r es' where l: "busy_loop receive b es = (r, es')" by fastforce
  have "fst (block_loop receive dl (zs @ ys)) \<noteq> Pending \<and> fst (block_loop receive dl (zs @ ys)) \<noteq> WindowOver" for zs
    using assms(2) by (intro block_loop_returns) auto
  with busy_loop_returns [OF b(3), of receive xs ys] b l show ?thesis
    by (cases r) (auto simp: await_def)
qed

section \<open>Accepted replies\<close>

lemma tryRecv_sound:
  assumes "tryRecv c s t probe verify r = Some (Inr (rtt, reply))"
  shows "wf_reply reply" "Seq (Probe reply) = Seq probe" "Sec (Probe reply) = Sec probe" "Frac (Probe reply) = Frac probe"
    "verify \<Longrightarrow> ProbePacket_Verify c (Probe reply) \<and> AuthorityPubkey reply = remotePubkey s \<and> ReplyPacket_Verify c reply"
    "\<exists>oob fb cmsgs k. r = RecvMsg (reply_bytes reply) oob fb \<and> ParseSocketControlMessage oob = Some cmsgs
       \<and> find_timestamp cmsgs = Some k \<and> rtt = decideRTT t k fb"
  using assms
  by (auto simp: tryRecv_def split: recv.splits if_splits result.splits option.splits
      dest: reply_wire.dec_iff [THEN iffD1])

lemma tryRecv_complete:
  assumes "wf_reply reply" "Seq (Probe reply) = Seq probe" "Sec (Probe reply) = Sec probe" "Frac (Probe reply) = Frac probe"
    "verify \<Longrightarrow> ProbePacket_Verify c (Probe reply) \<and> AuthorityPubkey reply = remotePubkey s \<and> ReplyPacket_Verify c reply"
    "ParseSocketControlMessage oob = Some cmsgs" "find_timestamp cmsgs = Some k"
  shows "tryRecv c s t probe verify (RecvMsg (reply_bytes reply) oob fb) = Some (Inr (decideRTT t k fb, reply))"
proof -
  have "MinReplyPacketSize \<le> ReplyPacket_Size reply" "ReplyPacket_Size reply \<le> MaxReplyPacketSize"
    using assms(1) by (auto simp: wf_reply_def wf_offsets_def ReplyPacket_Size_def MinReplyPacketSize_def)
  with assms show ?thesis
    by (simp add: tryRecv_def length_reply_bytes reply_wire.dec_enc)
qed

lemma sendAndRecv_sound:
  assumes "sendAndRecv c s buf probe verify busy env = (sent, Returns (Inr (rtt, reply)))"
  shows "sent = [buf]" "\<exists>e \<in> set (ex_polls env). tryRecv c s (ex_now env) probe verify (po_recv e) = Some (Inr (rtt, reply))"
  using assms await_sound
  by (fastforce simp: sendAndRecv_def split: option.splits poll_end.splits)+

lemma decideRTT_nonneg: "0 \<le> sint (decideRTT a b d)"
  by (simp add: decideRTT_def Let_def)

section \<open>Probes\<close>

lemma marshalled_ok:
  assumes "m = Ok p" "wf_probe p"
  shows "marshalled m = Inr (p, probe_bytes p)"
  using assms by (simp add: marshalled_def ProbePacket_Marshal_eq length_probe_bytes)

lemma marshalled_new:
  assumes "signer_ok c g"
  obtains p where "marshalled (NewProbePacket c now sq g) = Inr (p, probe_bytes p)" "wf_probe p" "Seq p = sq"
    "(Sec p, Frac p) = ntpTimestamp now" "SenderPubkey p = drop 32 (key g)" "ProbePacket_Verify c p"
  using NewProbePacket_ok [OF assms, of now sq] marshalled_ok that by metis

lemma marshalled_challenged:
  assumes "signer_ok c g"
  obtains p where "marshalled (newChallengedProbePacket c sq g n) = Inr (p, probe_bytes p)" "wf_probe p" "Seq p = sq"
    "presentedNonce p = n" "SenderPubkey p = drop 32 (key g)" "ProbePacket_Verify c p"
proof -
  obtain p where p: "newChallengedProbePacket c sq g n = (Ok p :: (packet_error, ProbePacket) result)" "wf_probe p" "Seq p = sq"
    "Sec p = ucast (drop_bit 32 n)" "Frac p = ucast (n AND 0xFFFFFFFF)"
    "SenderPubkey p = drop 32 (key g)" "ProbePacket_Verify c p"
    using newChallengedProbePacket_ok [OF assms, of sq n] by auto
  have "presentedNonce p = n" using p(4,5) by (simp add: presentedNonce_def nonce_split)
  with p marshalled_ok [OF p(1,2)] show thesis by (intro that [of p])
qed

text \<open>An exchange whose first poll delivers a matching reply.\<close>

lemma await_first:
  assumes "Before (po_now e) b" "po_epoll e = (n, None)" "n > 0" "receive (po_recv e) = Some x"
  shows "fst (await receive (Some b) dl (e # es)) = Got x"
  using assms by (simp add: await_def)

lemma sendAndRecv_first:
  assumes env: "ex_sendto env = None" "ex_polls env = e # es" "po_epoll e = (n, None)" "n > 0"
    and busy: "sint busy > 0" "Before (po_now e) (Add (ex_now env) busy)"
    and recv: "po_recv e = RecvMsg (reply_bytes reply) (timestamp_cmsg sec nsec) fb" "wf_reply reply"
    and echo: "Seq (Probe reply) = Seq probe" "Sec (Probe reply) = Sec probe" "Frac (Probe reply) = Frac probe"
    and ok: "verify \<Longrightarrow> ProbePacket_Verify c (Probe reply) \<and> AuthorityPubkey reply = remotePubkey s \<and> ReplyPacket_Verify c reply"
  shows "sendAndRecv c s buf probe verify busy env =
    ([buf], Returns (Inr (decideRTT (ex_now env) (time_Unix (sint sec) (sint nsec)) fb, reply)))"
proof -
  have "tryRecv c s (ex_now env) probe verify (po_recv e) =
      Some (Inr (decideRTT (ex_now env) (time_Unix (sint sec) (sint nsec)) fb, reply))"
    using tryRecv_complete [OF recv(2) echo ok parse_timestamp_cmsg find_timestamp_cmsg] recv(1) by simp
  from await_first [of e, OF busy(2) env(3,4), where receive = "tryRecv c s (ex_now env) probe verify", OF this] env busy(1)
  show ?thesis by (simp add: sendAndRecv_def)
qed

section \<open>Properties\<close>

text \<open>
  C18 (\<open>verified_reply\<close>). A reply that a verifying exchange returns was received as a datagram during the
  exchange, byte for byte its encoding; it repeats the sequence number and both timestamp fields of the
  probe that was sent, the probe in it carries a valid signature, its authority is the anchor's key
  and the signature over everything before it is valid under that key; and the RTT is \<open>decideRTT\<close> of
  the kernel timestamp that came with the datagram, never negative.
\<close>

theorem verified_reply:
  assumes "sendAndRecv c s buf probe True busy env = (sent, Returns (Inr (rtt, reply)))"
  shows "sent = [buf] \<and> Seq (Probe reply) = Seq probe \<and> presentedNonce (Probe reply) = presentedNonce probe
    \<and> ProbePacket_Verify c (Probe reply) \<and> 0 \<le> sint rtt
    \<and> ed_Verify c (remotePubkey s) (reply_payload reply) (Signature reply)
    \<and> (\<exists>e \<in> set (ex_polls env). \<exists>oob fb cmsgs k. po_recv e = RecvMsg (reply_payload reply @ Signature reply) oob fb
        \<and> ParseSocketControlMessage oob = Some cmsgs \<and> find_timestamp cmsgs = Some k \<and> rtt = decideRTT (ex_now env) k fb)"
proof -
  obtain e where e: "e \<in> set (ex_polls env)" and t: "tryRecv c s (ex_now env) probe True (po_recv e) = Some (Inr (rtt, reply))"
    using sendAndRecv_sound(2) [OF assms] by blast
  note a = tryRecv_sound [OF t]
  from a(6) obtain oob fb cmsgs k where r: "po_recv e = RecvMsg (reply_bytes reply) oob fb"
    "ParseSocketControlMessage oob = Some cmsgs" "find_timestamp cmsgs = Some k" "rtt = decideRTT (ex_now env) k fb" by blast
  have "ed_Verify c (remotePubkey s) (reply_payload reply) (Signature reply)"
    using a(1,5) by (auto simp: ReplyPacket_Verify_eq)
  moreover have "presentedNonce (Probe reply) = presentedNonce probe" using a(3,4) by (simp add: presentedNonce_def)
  moreover have "0 \<le> sint rtt" using r(4) by (simp add: decideRTT_nonneg)
  moreover note sendAndRecv_sound(1) [OF assms] a(2,5) e r [unfolded reply_bytes_def]
  ultimately show ?thesis by blast
qed

text \<open>A sender with a toy key, and an exchange whose first poll delivers \<open>b\<close>.\<close>

definition sample_sender :: LinuxSender where
  "sample_sender = \<lparr>s_fd = 5, s_epfd = 6, seq = 6, remote = (8000, [10, 0, 0, 2]), signer = toy_signer,
     remotePubkey = replicate 32 1, challenged = True\<rparr>"

definition sample_poll :: "bytes \<Rightarrow> poll" where
  "sample_poll b = \<lparr>po_ctx = None, po_now = \<lparr>wall = 1000, mono = None\<rparr>, po_epoll = (1, None),
     po_recv = RecvMsg b (timestamp_cmsg 0 2000) \<lparr>wall = 3000, mono = None\<rparr>\<rparr>"

definition sample_exchange :: "bytes \<Rightarrow> exchange" where
  "sample_exchange b = \<lparr>ex_now = \<lparr>wall = 500, mono = None\<rparr>, ex_sendto = None,
     ex_deadline = Some \<lparr>wall = 5000000000, mono = None\<rparr>, ex_now2 = \<lparr>wall = 600, mono = None\<rparr>, ex_polls = [sample_poll b]\<rparr>"

lemma sample_exchange_sel [simp]:
  "ex_sendto (sample_exchange b) = None" "ex_polls (sample_exchange b) = [sample_poll b]"
  "po_epoll (sample_poll b) = (1, None)" "ex_now (sample_exchange b) = \<lparr>wall = 500, mono = None\<rparr>"
  "po_recv (sample_poll b) = RecvMsg b (timestamp_cmsg 0 2000) \<lparr>wall = 3000, mono = None\<rparr>"
  "Before (po_now (sample_poll b)) (Add \<lparr>wall = 500, mono = None\<rparr> busyPollWindow)"
  "sint busyPollWindow > 0"
  by (simp_all add: sample_exchange_def sample_poll_def Before_def Add_def time_diff_def busyPollWindow_def)

lemma sample_sendAndRecv:
  assumes "wf_reply reply" "Seq (Probe reply) = Seq probe" "Sec (Probe reply) = Sec probe" "Frac (Probe reply) = Frac probe"
    and "verify \<Longrightarrow> ProbePacket_Verify c (Probe reply) \<and> AuthorityPubkey reply = remotePubkey s \<and> ReplyPacket_Verify c reply"
  shows "sendAndRecv c s buf probe verify busyPollWindow (sample_exchange (reply_bytes reply)) = ([buf], Returns (Inr (1500, reply)))"
proof -
  have "decideRTT \<lparr>wall = 500, mono = None\<rparr> (time_Unix 0 2000) \<lparr>wall = 3000, mono = None\<rparr> = 1500"
    by (simp add: decideRTT_def Let_def Sub_def time_diff_def time_Unix_def sat64_def Second_def)
  with sendAndRecv_first [of "sample_exchange (reply_bytes reply)" "sample_poll (reply_bytes reply)" "[]" 1 busyPollWindow
      reply 0 2000 _ probe verify c s buf, OF _ _ _ _ _ _ _ assms]
  show ?thesis by simp
qed

text \<open>A probe of the toy signer and the anchor's reply to it, with the same key at both ends.\<close>

lemma toy_reply:
  assumes p: "wf_probe p"
  obtains rep where "wf_reply rep" "Probe rep = p" "SinceLastRxNs rep = 5"
    "AuthorityPubkey rep = remotePubkey sample_sender" "ReplyPacket_Verify toy_ed25519 rep"
    "Lat rep = 0" "Lng rep = 0" "Offsets rep = []"
proof -
  obtain rep where r: "wf_reply rep" "rep = \<lparr>Probe = p, AuthorityPubkey = drop 32 (key toy_signer), GeoprobePubkey = zeros 32, MeasurementSlot = 0,
        Lat = 0, Lng = 0, SinceLastRxNs = 5, RttNs = 0, Offsets = [], Challenged = False,
        Signature = Signature rep\<rparr>" "ReplyPacket_Verify toy_ed25519 rep"
    using NewReplyPacket_ok [OF toy_signer_ok p, of "zeros 32" "[]" 0 0 0 5 0 False] by (auto simp: wf_offsets_def)
  have "Probe rep = p" "SinceLastRxNs rep = 5" "AuthorityPubkey rep = remotePubkey sample_sender"
    "Lat rep = 0" "Lng rep = 0" "Offsets rep = []"
    by (subst r(2), simp add: sample_sender_def toy_signer_def)+
  with p r that show thesis by blast
qed

theorem verified_reply_witness:
  "\<exists>p rep. sendAndRecv toy_ed25519 sample_sender (probe_bytes p) p True busyPollWindow (sample_exchange (reply_bytes rep))
       = ([probe_bytes p], Returns (Inr (1500, rep)))
     \<and> ed_Verify toy_ed25519 (remotePubkey sample_sender) (reply_payload rep) (Signature rep)"
proof -
  obtain p where p: "wf_probe p" "ProbePacket_Verify toy_ed25519 p"
    using marshalled_new [OF toy_signer_ok] by blast
  obtain rep where "wf_reply rep" "Probe rep = p" "AuthorityPubkey rep = remotePubkey sample_sender"
    "ReplyPacket_Verify toy_ed25519 rep"
    using toy_reply [OF p(1)] by blast
  with p have s: "sendAndRecv toy_ed25519 sample_sender (probe_bytes p) p True busyPollWindow (sample_exchange (reply_bytes rep))
       = ([probe_bytes p], Returns (Inr (1500, rep)))" by (intro sample_sendAndRecv) auto
  from s verified_reply [OF s] show ?thesis by blast
qed

text \<open>
  C6 (\<open>challenged_pair_sound\<close>). What a completed challenged pair means to the sender. Exactly two probes
  went out, with the next two sequence numbers (modulo \<open>2 ^ 32\<close>), both signed by the sender's key; the
  second one presents the nonce found in reply 0. Reply 1 repeats that sequence number and nonce, was
  signed by the configured anchor, and the round-trip times are not negative. Reply 0 is only matched
  against probe 0, its signature is left to the caller.
\<close>

theorem challenged_pair_sound:
  assumes "signer_ok c (signer s)" "probePairChallenged c now env0 env1 s = (s', sent, Returns (Inr res))"
  shows "s' = s\<lparr>seq := seq s + 2\<rparr> \<and> (\<exists>p0 p1. sent = [probe_bytes p0, probe_bytes p1]
    \<and> Seq p0 = seq s + 1 \<and> Seq p1 = seq s + 2 \<and> (Sec p0, Frac p0) = ntpTimestamp now
    \<and> SenderPubkey p0 = drop 32 (key (signer s)) \<and> SenderPubkey p1 = drop 32 (key (signer s))
    \<and> ProbePacket_Verify c p0 \<and> ProbePacket_Verify c p1
    \<and> presentedNonce p1 = SinceLastRxNs (Reply0 res)
    \<and> Seq (Probe (Reply0 res)) = Seq p0 \<and> Sec (Probe (Reply0 res)) = Sec p0 \<and> Frac (Probe (Reply0 res)) = Frac p0
    \<and> Seq (Probe (Reply1 res)) = Seq p1 \<and> presentedNonce (Probe (Reply1 res)) = SinceLastRxNs (Reply0 res)
    \<and> ProbePacket_Verify c (Probe (Reply1 res)) \<and> AuthorityPubkey (Reply1 res) = remotePubkey s
    \<and> ReplyPacket_Verify c (Reply1 res) \<and> 0 \<le> sint (RTT0 res) \<and> 0 \<le> sint (RTT1 res))"
proof -
  let ?s1 = "next_seq s" and ?s2 = "next_seq (next_seq s)"
  have sg: "signer_ok c (signer ?s1)" "signer_ok c (signer ?s2)" using assms(1) by (simp_all add: next_seq_def)
  obtain p0 where p0: "marshalled (NewProbePacket c now (seq ?s1) (signer ?s1)) = Inr (p0, probe_bytes p0)" "Seq p0 = seq ?s1"
    "(Sec p0, Frac p0) = ntpTimestamp now" "SenderPubkey p0 = drop 32 (key (signer ?s1))" "ProbePacket_Verify c p0"
    using marshalled_new [OF sg(1)] by metis
  from assms(2) p0(1) obtain sent0 rtt0 reply0 where
    x0: "sendAndRecv c ?s1 (probe_bytes p0) p0 False busyPollWindow env0 = (sent0, Returns (Inr (rtt0, reply0)))"
    by (auto simp: probePairChallenged_def Let_def split: prod.splits waiting.splits sum.splits)
  obtain p1 where p1: "marshalled (newChallengedProbePacket c (seq ?s2) (signer ?s2) (SinceLastRxNs reply0)) = Inr (p1, probe_bytes p1)"
    "Seq p1 = seq ?s2" "presentedNonce p1 = SinceLastRxNs reply0" "SenderPubkey p1 = drop 32 (key (signer ?s2))" "ProbePacket_Verify c p1"
    using marshalled_challenged [OF sg(2)] by metis
  from assms(2) p0(1) x0 p1(1) obtain sent1 rtt1 reply1 where
    x1: "sendAndRecv c ?s2 (probe_bytes p1) p1 True busyPollWindow env1 = (sent1, Returns (Inr (rtt1, reply1)))"
    and res: "s' = ?s2" "sent = sent0 @ sent1" "res = \<lparr>RTT0 = rtt0, RTT1 = rtt1, Reply0 = reply0, Reply1 = reply1\<rparr>"
    by (auto simp: probePairChallenged_def Let_def split: prod.splits waiting.splits sum.splits)
  obtain e0 :: poll where t0: "tryRecv c ?s1 (ex_now env0) p0 False (po_recv e0) = Some (Inr (rtt0, reply0))"
    using sendAndRecv_sound(2) [OF x0] by blast
  obtain e1 :: poll where t1: "tryRecv c ?s2 (ex_now env1) p1 True (po_recv e1) = Some (Inr (rtt1, reply1))"
    using sendAndRecv_sound(2) [OF x1] by blast
  have n: "presentedNonce (Probe reply1) = presentedNonce p1" using tryRecv_sound [OF t1] by (simp add: presentedNonce_def)
  have rtt: "0 \<le> sint rtt0" "0 \<le> sint rtt1"
    using tryRecv_sound(6) [OF t0] tryRecv_sound(6) [OF t1] decideRTT_nonneg by auto
  have sent: "sent = [probe_bytes p0, probe_bytes p1]"
    using res(2) sendAndRecv_sound(1) [OF x0] sendAndRecv_sound(1) [OF x1] by simp
  have s': "s' = s\<lparr>seq := seq s + 2\<rparr>" using res(1) by (simp add: next_seq_def)
  show ?thesis
    using p0 p1 n rtt sent s' res(3) tryRecv_sound(2-4) [OF t0] tryRecv_sound(2) [OF t1] tryRecv_sound(5) [OF t1 TrueI]
    by (intro conjI exI [of _ p0] exI [of _ p1]) (simp_all add: next_seq_def)
qed

text \<open>
  A pair completes when the first poll of each exchange delivers a matching reply.
\<close>

lemma challenged_pair_completes:
  assumes "marshalled (NewProbePacket c now (seq s + 1) (signer s)) = Inr (p0, probe_bytes p0)"
    and "marshalled (newChallengedProbePacket c (seq s + 2) (signer s) (SinceLastRxNs rep0)) = Inr (p1, probe_bytes p1)"
    and "sendAndRecv c (s\<lparr>seq := seq s + 1\<rparr>) (probe_bytes p0) p0 False busyPollWindow env0 = ([probe_bytes p0], Returns (Inr (rtt0, rep0)))"
    and "sendAndRecv c (s\<lparr>seq := seq s + 2\<rparr>) (probe_bytes p1) p1 True busyPollWindow env1 = ([probe_bytes p1], Returns (Inr (rtt1, rep1)))"
  shows "probePairChallenged c now env0 env1 s = (s\<lparr>seq := seq s + 2\<rparr>, [probe_bytes p0, probe_bytes p1],
     Returns (Inr \<lparr>RTT0 = rtt0, RTT1 = rtt1, Reply0 = rep0, Reply1 = rep1\<rparr>))"
  using assms by (simp add: probePairChallenged_def Let_def next_seq_def ac_simps)

text \<open>The toy sender completes a pair with an anchor of the toy key that draws the nonce 5.\<close>

lemma toy_pair_completes:
  obtains rep0 rep1 s' sent where
    "probePairChallenged toy_ed25519 \<lparr>wall = 0, mono = None\<rparr> (sample_exchange (reply_bytes rep0)) (sample_exchange (reply_bytes rep1)) sample_sender
       = (s', sent, Returns (Inr \<lparr>RTT0 = 1500, RTT1 = 1500, Reply0 = rep0, Reply1 = rep1\<rparr>))"
    "SinceLastRxNs rep0 = 5" "s' = sample_sender\<lparr>seq := 8\<rparr>" "Lat rep1 = 0" "Lng rep1 = 0" "Offsets rep1 = []"
proof -
  let ?s = sample_sender and ?now = "\<lparr>wall = 0, mono = None\<rparr>"
  have ok: "signer_ok toy_ed25519 (signer ?s)" by (simp add: sample_sender_def toy_signer_ok)
  obtain p0 where p0: "marshalled (NewProbePacket toy_ed25519 ?now (seq ?s + 1) (signer ?s)) = Inr (p0, probe_bytes p0)" "wf_probe p0"
    using marshalled_new [OF ok] by metis
  obtain rep0 where r0: "wf_reply rep0" "Probe rep0 = p0" "SinceLastRxNs rep0 = 5" using toy_reply [OF p0(2)] by metis
  obtain p1 where p1: "marshalled (newChallengedProbePacket toy_ed25519 (seq ?s + 2) (signer ?s) (SinceLastRxNs rep0)) = Inr (p1, probe_bytes p1)"
    "wf_probe p1" "ProbePacket_Verify toy_ed25519 p1" using marshalled_challenged [OF ok] by metis
  obtain rep1 where r1: "wf_reply rep1" "Probe rep1 = p1" "AuthorityPubkey rep1 = remotePubkey ?s" "ReplyPacket_Verify toy_ed25519 rep1"
    "Lat rep1 = 0" "Lng rep1 = 0" "Offsets rep1 = []"
    using toy_reply [OF p1(2)] by metis
  have x: "sendAndRecv toy_ed25519 (?s\<lparr>seq := seq ?s + 1\<rparr>) (probe_bytes p0) p0 False busyPollWindow (sample_exchange (reply_bytes rep0))
      = ([probe_bytes p0], Returns (Inr (1500, rep0)))"
    "sendAndRecv toy_ed25519 (?s\<lparr>seq := seq ?s + 2\<rparr>) (probe_bytes p1) p1 True busyPollWindow (sample_exchange (reply_bytes rep1))
      = ([probe_bytes p1], Returns (Inr (1500, rep1)))"
    using r0 r1 p1(3) by (auto intro!: sample_sendAndRecv)
  from challenged_pair_completes [OF p0(1) p1(1) x] r0(3) r1(5-7) show thesis
    by (intro that) (simp_all add: sample_sender_def)
qed

theorem challenged_pair_sound_witness:
  "\<exists>env0 env1 s' sent res. probePairChallenged toy_ed25519 \<lparr>wall = 0, mono = None\<rparr> env0 env1 sample_sender = (s', sent, Returns (Inr res))
     \<and> seq s' = 8 \<and> length sent = 2 \<and> presentedNonce (Probe (Reply1 res)) = 5"
proof -
  have ok: "signer_ok toy_ed25519 (signer sample_sender)" by (simp add: sample_sender_def toy_signer_ok)
  obtain rep0 rep1 s' sent where
    c: "probePairChallenged toy_ed25519 \<lparr>wall = 0, mono = None\<rparr> (sample_exchange (reply_bytes rep0)) (sample_exchange (reply_bytes rep1)) sample_sender
       = (s', sent, Returns (Inr \<lparr>RTT0 = 1500, RTT1 = 1500, Reply0 = rep0, Reply1 = rep1\<rparr>))" "SinceLastRxNs rep0 = 5" "s' = sample_sender\<lparr>seq := 8\<rparr>"
    by (rule toy_pair_completes)
  from challenged_pair_sound [OF ok c(1)] c(2) have "length sent = 2" "presentedNonce (Probe rep1) = 5" by auto
  with c show ?thesis
    by (intro exI [of _ "sample_exchange (reply_bytes rep0)"] exI [of _ "sample_exchange (reply_bytes rep1)"] exI [of _ s'] exI [of _ sent]
        exI [of _ "\<lparr>RTT0 = 1500, RTT1 = 1500, Reply0 = rep0, Reply1 = rep1\<rparr>"]) simp
qed

text \<open>
  C33 (\<open>exchange_returns\<close>). Waiting for a reply ends. Whatever datagrams, wakeups and errors arrive, when
  the busy-poll window (if any) has been seen to be over and later the clock has been seen at or
  within a millisecond of the deadline, the exchange has returned a reply or an error, and it has
  transmitted the probe at most once.
\<close>

theorem exchange_returns:
  assumes "sint busy > 0 \<longrightarrow> (\<exists>xs e. ex_polls env = xs @ e # ys \<and> \<not> Before (po_now e) (Add (ex_now env) busy))"
    and "\<not> sint busy > 0 \<longrightarrow> ex_polls env = ys"
    and "\<exists>e \<in> set ys. remaining_ms (ex_limit env) (po_now e) \<le> 0"
  shows "\<exists>sent res. sendAndRecv c s buf probe verify busy env = (sent, Returns res) \<and> sent \<in> {[], [buf]}"
proof (cases "ex_sendto env")
  case None
  let ?b = "if sint busy > 0 then Some (Add (ex_now env) busy) else None"
  let ?a = "fst (await (tryRecv c s (ex_now env) probe verify) ?b (ex_limit env) (ex_polls env))"
  have "?a \<noteq> Pending \<and> ?a \<noteq> WindowOver"
    using assms by (intro await_returns [where ys = ys]) auto
  with None show ?thesis by (cases ?a) (auto simp: sendAndRecv_def)
qed (auto simp: sendAndRecv_def)

theorem exchange_returns_witness:
  "\<exists>sent res. sendAndRecv toy_ed25519 sample_sender [] sample_probe True 0
     ((sample_exchange [])\<lparr>ex_polls := [(sample_poll [])\<lparr>po_now := \<lparr>wall = 6000000000, mono = None\<rparr>\<rparr>]\<rparr>) = (sent, Returns res)"
proof -
  have "\<exists>e \<in> set [(sample_poll [])\<lparr>po_now := \<lparr>wall = 6000000000, mono = None\<rparr>\<rparr>].
     remaining_ms (ex_limit ((sample_exchange [])\<lparr>ex_polls := [(sample_poll [])\<lparr>po_now := \<lparr>wall = 6000000000, mono = None\<rparr>\<rparr>]\<rparr>)) (po_now e) \<le> 0"
    by (simp add: ex_limit_def sample_exchange_def remaining_ms_def Let_def sint_Sub time_diff_def sat64_def)
  from exchange_returns [where busy = 0, OF _ _ this, of toy_ed25519 sample_sender "[]" sample_probe True]
  show ?thesis by auto
qed

text \<open>
  The round-trip time is never negative; it is the kernel's receive time minus
  the send time when that is not negative, zero when the kernel time is at most 100 microseconds
  before the send time, and otherwise the difference of the fallback time, cut off at zero.
\<close>

theorem decideRTT_spec:
  "0 \<le> sint (decideRTT sendTime kernelTime fallback) \<and>
   sint (decideRTT sendTime kernelTime fallback) =
     (let k = time_diff kernelTime sendTime; f = time_diff fallback sendTime in
      if 0 \<le> k then min k (2 ^ 63 - 1) else if - 100000 \<le> k then 0 else if 0 \<le> f then min f (2 ^ 63 - 1) else 0)"
  by (auto simp: decideRTT_def Let_def sint_Sub sat64_def min_def)

text \<open>
  A sender that cannot be constructed, for whichever reason and also
  when the remote address is not IPv4, leaves no descriptor open; a constructed one owns the socket and
  the epoll descriptor, starts with sequence number 0, and \<open>Close\<close> leaves nothing open.
\<close>

theorem NewLinuxSender_descriptors:
  "case NewLinuxSender env iface lcl rmt sgnr rpk chal of
     (Inl e, fds) \<Rightarrow> fds = {}
   | (Inr s, fds) \<Rightarrow> fds = {s_fd s, s_epfd s} \<and> Sender_Close s fds = {} \<and> seq s = 0 \<and> signer s = sgnr
       \<and> remotePubkey s = rpk \<and> challenged s = chal \<and> fst (remote s) = fst rmt \<and> length (snd (remote s)) = 4 \<and> snd rmt \<noteq> None"
  by (auto simp: NewLinuxSender_def Sender_Close_def Let_def split: option.splits sum.splits prod.splits)

section \<open>Unchallenged pairs\<close>

lemma reply_bytes_seq: "be_Uint32 (take 4 (reply_bytes r)) = Ok (Seq (Probe r))"
  by (simp add: reply_bytes_def reply_payload_def probe_bytes_def)

lemma recvAndFireProbe1_sound:
  assumes "recvAndFireProbe1 p fire r = Some (Inr (buf, oob))"
  shows "\<exists>fb. r = RecvMsg buf oob fb" "be_Uint32 (take 4 buf) = (Ok (Seq p) :: (packet_error, uint32) result)"
  using assms by (auto simp: recvAndFireProbe1_def split: recv.splits if_splits result.splits option.splits)

lemma parse_reply0_sound:
  assumes "parse_reply0 t fb p buf oob = Inr (rtt, reply)"
  shows "wf_reply reply" "buf = reply_bytes reply" "Sec (Probe reply) = Sec p" "Frac (Probe reply) = Frac p" "0 \<le> sint rtt"
  using assms decideRTT_nonneg
  by (auto simp: parse_reply0_def split: result.splits if_splits option.splits dest: reply_wire.dec_iff [THEN iffD1])

text \<open>
  C32 (\<open>unchallenged_pair_sound\<close>). A completed unchallenged pair: two probes with the next two sequence
  numbers, signed before anything was sent, and both current timestamps; reply 0 arrived in a datagram
  during the exchange and repeats sequence number and timestamp of probe 0, reply 1 repeats those of
  probe 1 and was signed by the configured anchor. Although probe 1 is fired after looking at four
  bytes only, a pair is returned only if the whole of reply 0 decodes and matches.
\<close>

theorem unchallenged_pair_sound:
  assumes "signer_ok c (signer s)" "probePairUnchallenged c env s = (s', sent, Returns (Inr res))"
  shows "s' = s\<lparr>seq := seq s + 2\<rparr> \<and> (\<exists>p0 p1. sent = [probe_bytes p0, probe_bytes p1]
    \<and> Seq p0 = seq s + 1 \<and> Seq p1 = seq s + 2
    \<and> (Sec p0, Frac p0) = ntpTimestamp (pe_now0 env) \<and> (Sec p1, Frac p1) = ntpTimestamp (pe_now1 env)
    \<and> ProbePacket_Verify c p0 \<and> ProbePacket_Verify c p1
    \<and> Seq (Probe (Reply0 res)) = Seq p0 \<and> Sec (Probe (Reply0 res)) = Sec p0 \<and> Frac (Probe (Reply0 res)) = Frac p0
    \<and> (\<exists>e \<in> set (ex_polls (pe_exchange env)). \<exists>oob fb. po_recv e = RecvMsg (reply_bytes (Reply0 res)) oob fb)
    \<and> Seq (Probe (Reply1 res)) = Seq p1 \<and> Sec (Probe (Reply1 res)) = Sec p1 \<and> Frac (Probe (Reply1 res)) = Frac p1
    \<and> ProbePacket_Verify c (Probe (Reply1 res)) \<and> AuthorityPubkey (Reply1 res) = remotePubkey s
    \<and> ReplyPacket_Verify c (Reply1 res) \<and> 0 \<le> sint (RTT0 res) \<and> 0 \<le> sint (RTT1 res))"
proof -
  let ?s1 = "next_seq s" and ?s2 = "next_seq (next_seq s)" and ?x = "pe_exchange env"
  have sg: "signer_ok c (signer ?s1)" "signer_ok c (signer ?s2)" using assms(1) by (simp_all add: next_seq_def)
  obtain p0 where p0: "marshalled (NewProbePacket c (pe_now0 env) (seq ?s1) (signer ?s1)) = Inr (p0, probe_bytes p0)" "Seq p0 = seq ?s1"
    "(Sec p0, Frac p0) = ntpTimestamp (pe_now0 env)" "ProbePacket_Verify c p0"
    using marshalled_new [OF sg(1)] by metis
  obtain p1 where p1: "marshalled (NewProbePacket c (pe_now1 env) (seq ?s2) (signer ?s2)) = Inr (p1, probe_bytes p1)" "Seq p1 = seq ?s2"
    "(Sec p1, Frac p1) = ntpTimestamp (pe_now1 env)" "ProbePacket_Verify c p1"
    using marshalled_new [OF sg(2)] by metis
  note def = probePairUnchallenged_def Let_def
  from assms(2) p0(1) p1(1) obtain buf oob where
    g: "fst (await (recvAndFireProbe1 p0 (pe_fire env)) (Some (Add (ex_now ?x) busyPollWindow)) (ex_limit ?x) (ex_polls ?x)) = Got (Inr (buf, oob))"
    by (auto simp: def split: option.splits poll_end.splits sum.splits prod.splits)
  from assms(2) p0(1) p1(1) g obtain rtt0 reply0 where
    r0: "parse_reply0 (ex_now ?x) (pe_fallback0 env) p0 buf oob = Inr (rtt0, reply0)"
    by (auto simp: def split: option.splits poll_end.splits sum.splits prod.splits)
  from assms(2) p0(1) p1(1) g r0 obtain rtt1 reply1 where
    r1: "fst (block_loop (tryRecv c ?s2 (fst (pe_fire env)) p1 True) (ex_limit ?x) (pe_polls1 env)) = Got (Inr (rtt1, reply1))"
    and res: "s' = ?s2" "sent = [probe_bytes p0, probe_bytes p1]" "res = \<lparr>RTT0 = rtt0, RTT1 = rtt1, Reply0 = reply0, Reply1 = reply1\<rparr>"
    by (auto simp: def split: option.splits poll_end.splits sum.splits prod.splits)
  obtain e0 where e0: "e0 \<in> set (ex_polls ?x)" "recvAndFireProbe1 p0 (pe_fire env) (po_recv e0) = Some (Inr (buf, oob))"
    using await_sound [OF g] by blast
  obtain e1 :: poll where t1: "tryRecv c ?s2 (fst (pe_fire env)) p1 True (po_recv e1) = Some (Inr (rtt1, reply1))"
    using block_loop_sound [OF r1] by blast
  note f0 = parse_reply0_sound [OF r0]
  have sq0: "Seq (Probe reply0) = Seq p0"
    using recvAndFireProbe1_sound(2) [OF e0(2)] f0(2) reply_bytes_seq [of reply0, where 'a = packet_error] by simp
  have "0 \<le> sint rtt1" using tryRecv_sound(6) [OF t1] decideRTT_nonneg by auto
  moreover have "s' = s\<lparr>seq := seq s + 2\<rparr>" using res(1) by (simp add: next_seq_def)
  ultimately show ?thesis
    using p0 p1 res(2,3) f0 sq0 e0(1) recvAndFireProbe1_sound(1) [OF e0(2)] tryRecv_sound(2-4) [OF t1] tryRecv_sound(5) [OF t1 TrueI]
    by (intro conjI exI [of _ p0] exI [of _ p1]) (auto simp: next_seq_def)
qed

theorem unchallenged_pair_sound_witness:
  "\<exists>env s' sent res. probePairUnchallenged toy_ed25519 env sample_sender = (s', sent, Returns (Inr res))
     \<and> seq s' = 8 \<and> length sent = 2 \<and> AuthorityPubkey (Reply1 res) = remotePubkey sample_sender"
proof -
  let ?s = sample_sender and ?t = "\<lparr>wall = 500, mono = None\<rparr>"
  have ok: "signer_ok toy_ed25519 (signer ?s)" by (simp add: sample_sender_def toy_signer_ok)
  obtain p0 where p0: "marshalled (NewProbePacket toy_ed25519 ?t (seq ?s + 1) (signer ?s)) = Inr (p0, probe_bytes p0)" "wf_probe p0"
    using marshalled_new [OF ok] by metis
  obtain p1 where p1: "marshalled (NewProbePacket toy_ed25519 ?t (seq ?s + 2) (signer ?s)) = Inr (p1, probe_bytes p1)"
    "wf_probe p1" "ProbePacket_Verify toy_ed25519 p1" using marshalled_new [OF ok] by metis
  obtain rep0 where r0: "wf_reply rep0" "Probe rep0 = p0" using toy_reply [OF p0(2)] by metis
  obtain rep1 where r1: "wf_reply rep1" "Probe rep1 = p1" "AuthorityPubkey rep1 = remotePubkey ?s" "ReplyPacket_Verify toy_ed25519 rep1"
    using toy_reply [OF p1(2)] by metis
  define env where "env = \<lparr>pe_now0 = ?t, pe_now1 = ?t, pe_exchange = sample_exchange (reply_bytes rep0), pe_fire = (?t, None),
     pe_fallback0 = ?t, pe_polls1 = [sample_poll (reply_bytes rep1)]\<rparr>"
  have sz: "MinReplyPacketSize \<le> length (reply_bytes rep0) \<and> length (reply_bytes rep0) \<le> MaxReplyPacketSize"
    using r0(1) by (simp add: length_reply_bytes wf_reply_def wf_offsets_def ReplyPacket_Size_def MinReplyPacketSize_def)
  have g: "fst (await (recvAndFireProbe1 p0 (?t, None)) (Some (Add ?t busyPollWindow)) dl [sample_poll (reply_bytes rep0)])
      = Got (Inr (reply_bytes rep0, timestamp_cmsg 0 2000))" for dl
    using sz r0(2) by (intro await_first) (auto simp: recvAndFireProbe1_def reply_bytes_seq not_less)
  obtain rtt0 where q: "parse_reply0 ?t ?t p0 (reply_bytes rep0) (timestamp_cmsg 0 2000) = Inr (rtt0, rep0)"
    using r0 by (simp add: parse_reply0_def reply_wire.dec_enc parse_timestamp_cmsg)
  have t1: "tryRecv toy_ed25519 (?s\<lparr>seq := seq ?s + 2\<rparr>) ?t p1 True (po_recv (sample_poll (reply_bytes rep1)))
     = Some (Inr (decideRTT ?t (time_Unix 0 2000) \<lparr>wall = 3000, mono = None\<rparr>, rep1))"
    using tryRecv_complete [where probe = p1 and verify = True and c = toy_ed25519 and s = "?s\<lparr>seq := seq ?s + 2\<rparr>" and t = ?t
        and fb = "\<lparr>wall = 3000, mono = None\<rparr>", OF r1(1) _ _ _ _ parse_timestamp_cmsg find_timestamp_cmsg, of 0 2000] r1 p1(3) by simp
  have lim: "remaining_ms (ex_limit (sample_exchange b)) \<lparr>wall = 1000, mono = None\<rparr> > 0" for b
    by (simp add: ex_limit_def sample_exchange_def remaining_ms_def Let_def sint_Sub time_diff_def sat64_def)
  have b: "fst (block_loop (tryRecv toy_ed25519 (?s\<lparr>seq := seq ?s + 2\<rparr>) ?t p1 True) (ex_limit (sample_exchange (reply_bytes rep0))) [sample_poll (reply_bytes rep1)])
      = Got (Inr (decideRTT ?t (time_Unix 0 2000) \<lparr>wall = 3000, mono = None\<rparr>, rep1))"
    using t1 lim by (simp add: sample_poll_def not_le)
  have "\<exists>s' sent res. probePairUnchallenged toy_ed25519 env ?s = (s', sent, Returns (Inr res))"
    using p0(1) p1(1) g q b
    by (simp add: probePairUnchallenged_def Let_def env_def next_seq_def ac_simps)
  then obtain s' sent res where c: "probePairUnchallenged toy_ed25519 env ?s = (s', sent, Returns (Inr res))" by blast
  from unchallenged_pair_sound [OF ok c] have "seq s' = 8" "length sent = 2" "AuthorityPubkey (Reply1 res) = remotePubkey ?s"
    by (auto simp: sample_sender_def)
  with c show ?thesis by blast
qed

end
