(* ===== verification/Geo.thy ===== *)
theory Geo
  imports Go_Prelude "HOL-Library.Log_Nat"
begin

text \<open>
  Distances from round-trip times (\<open>internal/geo/distance.go\<close>). A \<open>float64\<close> that is computed with is
  modelled by the rational number it stands for, and every operation by the exact operation followed
  by \<open>rnd\<close>, rounding to 53 significant bits, ties to even. All values here are zero or between
  \<open>2 ^ - 60\<close> and \<open>2 ^ 70\<close>, so that neither overflow nor subnormal numbers occur. Durations are 64-bit
  words, and their subtraction wraps as in the code.
\<close>

section \<open>Rounding\<close>

text \<open>The exponent \<open>k\<close> with \<open>2 ^ k \<le> x < 2 ^ (k + 1)\<close>, for a positive rational.\<close>

definition exponent :: "rat \<Rightarrow> int" where
  "exponent x =
     (let (n, d) = quotient_of x; k = int (floorlog 2 (nat n)) - int (floorlog 2 (nat d))
      in if 2 powi k \<le> x then k else k - 1)"

definition round_even :: "rat \<Rightarrow> int" where
  "round_even y =
     (let f = \<lfloor>y\<rfloor>; r = y - of_int f
      in if r < 1 / 2 then f else if r > 1 / 2 then f + 1 else if even f then f else f + 1)"

definition rnd :: "rat \<Rightarrow> rat" where
  "rnd x = (if x \<le> 0 then 0
     else let u = 2 powi (exponent x - 52) in of_int (round_even (x / u)) * u)"

lemma rat_pow_nat:
  assumes "0 \<le> n"
  shows "2 ^ k \<le> nat n \<longleftrightarrow> (2 :: rat) ^ k \<le> of_int n" "nat n < 2 ^ k \<longleftrightarrow> of_int n < (2 :: rat) ^ k"
proof -
  have "rat_of_int n = of_nat (nat n)" "(2 :: rat) ^ k = of_nat (2 ^ k)" using assms by simp_all
  then show "2 ^ k \<le> nat n \<longleftrightarrow> (2 :: rat) ^ k \<le> of_int n" "nat n < 2 ^ k \<longleftrightarrow> of_int n < (2 :: rat) ^ k"
    by (simp_all only: of_nat_le_iff of_nat_less_iff)
qed

lemma exponent_bounds:
  assumes "x > 0"
  shows "2 powi (exponent x) \<le> x" "x < 2 powi (exponent x + 1)"
proof -
  obtain n d where q: "quotient_of x = (n, d)" by fastforce
  have d: "d > 0" using quotient_of_denom_pos [OF q] .
  have x: "x = of_int n / of_int d" using quotient_of_div [OF q] .
  have n: "n > 0" using assms d x by (simp add: zero_less_divide_iff)
  define a b where "a = floorlog 2 (nat n)" and "b = floorlog 2 (nat d)"
  have na: "(2 :: nat) ^ (a - 1) \<le> nat n" "nat n < 2 ^ a" "a \<ge> 1"
    using floorlog_bounds [of "nat n" 2] n by (auto simp: a_def floorlog_def)
  have nb: "(2 :: nat) ^ (b - 1) \<le> nat d" "nat d < 2 ^ b" "b \<ge> 1"
    using floorlog_bounds [of "nat d" 2] d by (auto simp: b_def floorlog_def)
  have rn: "(2 :: rat) ^ (a - 1) \<le> of_int n" "of_int n < (2 :: rat) ^ a"
    using na n rat_pow_nat [of n] by auto
  have rd: "(2 :: rat) ^ (b - 1) \<le> of_int d" "of_int d < (2 :: rat) ^ b"
    using nb d rat_pow_nat [of d] by auto
  have p: "(2 :: rat) powi (int m - int k) = 2 ^ m / 2 ^ k" for m k
    by (simp add: power_int_diff)
  have lo: "2 powi (int a - int b - 1) \<le> x"
  proof -
    have "(2 :: rat) powi (int a - int b - 1) = 2 ^ (a - 1) / 2 ^ b"
      using p [of "a - 1" b] na(3) by (simp add: of_nat_diff algebra_simps)
    also have "\<dots> \<le> of_int n / of_int d"
      using rn rd n d by (intro frac_le) auto
    finally show ?thesis by (simp add: x)
  qed
  have hi: "x < 2 powi (int a - int b + 1)"
  proof -
    have "of_int n / of_int d < (2 :: rat) ^ a / 2 ^ (b - 1)"
      using rn rd n d by (intro frac_less) auto
    also have "\<dots> = 2 powi (int a - int b + 1)"
      using p [of a "b - 1"] nb(3) by (simp add: of_nat_diff algebra_simps)
    finally show ?thesis by (simp add: x)
  qed
  have e: "exponent x = (if 2 powi (int a - int b) \<le> x then int a - int b else int a - int b - 1)"
    by (simp add: exponent_def q Let_def a_def b_def)
  show "2 powi (exponent x) \<le> x" "x < 2 powi (exponent x + 1)"
    using e lo hi by auto
qed

lemma powi2_mono: "k \<le> l \<Longrightarrow> (2 :: rat) powi k \<le> 2 powi l"
  by (simp add: power_int_mono_iff power_int_increasing)

lemma exponent_mono:
  assumes "0 < x" "x \<le> y"
  shows "exponent x \<le> exponent y"
proof (rule ccontr)
  assume "\<not> exponent x \<le> exponent y"
  then have "exponent y + 1 \<le> exponent x" by simp
  from powi2_mono [OF this] exponent_bounds(1) [OF assms(1)] exponent_bounds(2) [of y] assms show False by simp
qed

lemma round_even_mono: "x \<le> y \<Longrightarrow> round_even x \<le> round_even y"
proof -
  assume xy: "x \<le> y"
  then have f: "\<lfloor>x\<rfloor> \<le> \<lfloor>y\<rfloor>" by (rule floor_mono)
  show ?thesis
  proof (cases "\<lfloor>x\<rfloor> = \<lfloor>y\<rfloor>")
    case True
    with xy show ?thesis by (auto simp: round_even_def Let_def)
  next
    case False
    with f have "\<lfloor>x\<rfloor> + 1 \<le> \<lfloor>y\<rfloor>" by simp
    then show ?thesis by (auto simp: round_even_def Let_def)
  qed
qed

lemma round_even_int [simp]: "round_even (of_int n) = n"
  by (simp add: round_even_def)

lemma round_even_error: "\<bar>of_int (round_even y) - y\<bar> \<le> 1 / 2"
proof -
  have "of_int \<lfloor>y\<rfloor> \<le> y" "y < of_int \<lfloor>y\<rfloor> + 1" by linarith+
  then show ?thesis by (auto simp: round_even_def Let_def abs_le_iff)
qed

lemma powi2_pos [simp]: "(2 :: rat) powi k > 0" "\<not> (2 :: rat) powi k \<le> 0" "\<not> (2 :: rat) powi k < 0"
  using zero_less_power_int [of "2 :: rat" k] by (auto simp: not_le not_less)

lemma rnd_eq: "x > 0 \<Longrightarrow> rnd x = of_int (round_even (x / 2 powi (exponent x - 52))) * 2 powi (exponent x - 52)"
  by (simp add: rnd_def Let_def)

text \<open>Rounding stays within the binade, is monotone and has a relative error of at most \<open>2 ^ - 53\<close>.\<close>

lemma rnd_binade:
  assumes "x > 0"
  shows "2 powi exponent x \<le> rnd x" "rnd x \<le> 2 powi (exponent x + 1)"
proof -
  let ?u = "(2 :: rat) powi (exponent x - 52)"
  have u: "?u > 0" by simp
  have p: "(2 :: rat) powi (exponent x) = of_int (2 ^ 52) * ?u" "(2 :: rat) powi (exponent x + 1) = of_int (2 ^ 53) * ?u"
    by (simp_all add: power_int_add power_int_diff)
  have "of_int (2 ^ 52) \<le> x / ?u" "x / ?u \<le> of_int (2 ^ 53)"
    using exponent_bounds [OF assms] p u by (simp_all only: pos_le_divide_eq pos_divide_le_eq less_imp_le)
  then have "2 ^ 52 \<le> round_even (x / ?u)" "round_even (x / ?u) \<le> 2 ^ 53"
    using round_even_mono [of "of_int (2 ^ 52)" "x / ?u"] round_even_mono [of "x / ?u" "of_int (2 ^ 53)"] by (simp_all only: round_even_int)
  then have "rat_of_int (2 ^ 52) \<le> of_int (round_even (x / ?u))" "rat_of_int (round_even (x / ?u)) \<le> of_int (2 ^ 53)"
    by (simp_all only: of_int_le_iff)
  then show "2 powi exponent x \<le> rnd x" "rnd x \<le> 2 powi (exponent x + 1)"
    unfolding p rnd_eq [OF assms] by (auto intro!: mult_right_mono)
qed

lemma powi2_le_pos: "(2 :: rat) powi k \<le> x \<Longrightarrow> x > 0"
  by (rule less_le_trans [OF powi2_pos(1)])

lemma rnd_pos: "x > 0 \<Longrightarrow> rnd x > 0"
  by (rule powi2_le_pos [OF rnd_binade(1)])

lemma rnd_nonneg: "0 \<le> rnd x"
  using rnd_pos [of x] by (cases "x > 0") (simp_all add: rnd_def)

lemma rnd_mono:
  assumes "x \<le> y"
  shows "rnd x \<le> rnd y"
proof (cases "x > 0")
  case False
  then show ?thesis using rnd_nonneg [of y] by (simp add: rnd_def)
next
  case True
  consider "exponent x = exponent y" | "exponent x + 1 \<le> exponent y" using exponent_mono [OF True assms] by linarith
  then show ?thesis
  proof cases
    case 1
    let ?u = "(2 :: rat) powi (exponent y - 52)"
    have "round_even (x / ?u) \<le> round_even (y / ?u)" using assms by (intro round_even_mono divide_right_mono) simp_all
    with 1 True assms show ?thesis by (simp add: rnd_def Let_def)
  next
    case 2
    have "rnd x \<le> 2 powi (exponent x + 1)" using rnd_binade(2) [OF True] .
    also have "\<dots> \<le> 2 powi exponent y" using 2 by (rule powi2_mono)
    also have "\<dots> \<le> rnd y" using rnd_binade(1) [of y] True assms by simp
    finally show ?thesis .
  qed
qed

lemma rnd_error:
  assumes "x \<ge> 0"
  shows "\<bar>rnd x - x\<bar> \<le> x / 2 ^ 53"
proof (cases "x = 0")
  case False
  with assms have x: "x > 0" by simp
  let ?u = "(2 :: rat) powi (exponent x - 52)"
  have u: "?u > 0" by simp
  have "rnd x - x = (of_int (round_even (x / ?u)) - x / ?u) * ?u" using x u by (simp add: rnd_def Let_def left_diff_distrib)
  then have "\<bar>rnd x - x\<bar> = \<bar>of_int (round_even (x / ?u)) - x / ?u\<bar> * ?u" by (simp add: abs_mult)
  also have "\<dots> \<le> 1 / 2 * ?u" by (rule mult_right_mono [OF round_even_error]) simp
  also have "\<dots> = 2 powi exponent x / 2 ^ 53" by (simp add: power_int_diff)
  also have "\<dots> \<le> x / 2 ^ 53" using exponent_bounds(1) [OF x] by (intro divide_right_mono) simp_all
  finally show ?thesis .
qed (simp add: rnd_def)

text \<open>Numbers that are already representable are not changed, halving is exact.\<close>

lemma exponent_unique:
  assumes "2 powi k \<le> x" "x < 2 powi (k + 1)"
  shows "exponent x = k"
proof -
  have x: "x > 0" by (rule powi2_le_pos [OF assms(1)])
  have "\<not> k + 1 \<le> exponent x" using powi2_mono [of "k + 1" "exponent x"] exponent_bounds(1) [OF x] assms(2) by linarith
  moreover have "\<not> exponent x + 1 \<le> k" using powi2_mono [of "exponent x + 1" k] exponent_bounds(2) [OF x] assms(1) by linarith
  ultimately show ?thesis by simp
qed

lemma rnd_fixed:
  assumes "0 < m" "m \<le> 2 ^ 53"
  shows "rnd (of_int m * 2 powi k) = of_int m * 2 powi k"
proof -
  let ?x = "rat_of_int m * 2 powi k"
  have pos: "?x > 0" using assms by simp
  have up: "?x \<le> of_int (2 ^ 53) * 2 powi k" using assms(2) by (intro mult_right_mono) (simp_all only: of_int_le_iff, simp)
  have "exponent ?x - 52 \<le> k + 1"
  proof (rule ccontr)
    assume "\<not> exponent ?x - 52 \<le> k + 1"
    then have "(2 :: rat) powi (k + 54) \<le> 2 powi exponent ?x" by (intro powi2_mono) simp
    also have "\<dots> \<le> ?x" by (rule exponent_bounds(1) [OF pos])
    also note up
    finally show False by (simp add: power_int_add)
  qed
  then consider "exponent ?x - 52 = k + 1" | "exponent ?x - 52 \<le> k" by linarith
  then show ?thesis
  proof cases
    case 1
    then have "exponent ?x = k + 53" by simp
    then have "of_int (2 ^ 53) * 2 powi k \<le> ?x" using exponent_bounds(1) [OF pos] by (simp add: power_int_add)
    with up have x: "?x = 2 powi (k + 53)" by (simp add: power_int_add)
    have "?x / 2 powi (exponent ?x - 52) = of_int (2 ^ 52)" using 1 unfolding x by (simp add: power_int_add)
    with pos x 1 show ?thesis by (simp only: rnd_def Let_def round_even_int) (simp add: power_int_add)
  next
    case 2
    define i where "i = exponent ?x - 52"
    define j where "j = nat (k - i)"
    have "k = i + int j" using 2 by (simp add: i_def j_def)
    then have x: "?x = of_int (m * 2 ^ j) * 2 powi i" by (simp add: power_int_add)
    then have "?x / 2 powi i = of_int (m * 2 ^ j)" by (simp only: x) simp
    then have "rnd ?x = of_int (m * 2 ^ j) * 2 powi i"
      unfolding rnd_eq [OF pos] i_def [symmetric] by (simp only: round_even_int)
    also note x [symmetric]
    finally show ?thesis .
  qed
qed

lemma rnd_int: "0 \<le> m \<Longrightarrow> m \<le> 2 ^ 53 \<Longrightarrow> rnd (of_int m) = of_int m"
  using rnd_fixed [of m 0] by (cases "m = 0") (auto simp: rnd_def)

lemma rnd_form:
  assumes "x > 0"
  obtains m k where "rnd x = of_int m * 2 powi k" "0 < m" "m \<le> 2 ^ 53"
proof -
  let ?u = "(2 :: rat) powi (exponent x - 52)"
  let ?m = "round_even (x / ?u)"
  have r: "rnd x = of_int ?m * ?u" using assms by (simp add: rnd_def Let_def)
  have "?m > 0" using rnd_pos [OF assms] r by (simp add: zero_less_mult_iff)
  moreover have "?m \<le> 2 ^ 53"
  proof -
    have "of_int ?m * ?u \<le> of_int (2 ^ 53) * ?u" using rnd_binade(2) [OF assms] r by (simp add: power_int_add power_int_diff)
    then have "rat_of_int ?m \<le> of_int (2 ^ 53)" by (rule mult_right_le_imp_le) simp
    then show ?thesis by (simp only: of_int_le_iff)
  qed
  ultimately show thesis using r that by blast
qed

lemma rnd_half: "rnd (rnd x / 2) = rnd x / 2"
proof (cases "x > 0")
  case True
  then obtain m k where m: "rnd x = of_int m * 2 powi k" "0 < m" "m \<le> 2 ^ 53" by (rule rnd_form)
  have h: "rnd x / 2 = of_int m * 2 powi (k - 1)" using m(1) by (simp add: power_int_diff)
  show ?thesis unfolding h by (rule rnd_fixed [OF m(2,3)])
qed (simp add: rnd_def)

lemma rnd_rnd: "rnd (rnd x) = rnd x"
proof (cases "x > 0")
  case True
  then obtain m k where "rnd x = of_int m * 2 powi k" "0 < m" "m \<le> 2 ^ 53" by (rule rnd_form)
  then show ?thesis using rnd_fixed by simp
qed (simp add: rnd_def)

lemma rnd_between:
  assumes "0 \<le> x" "lo \<le> x" "x \<le> hi"
  shows "lo * (1 - 1 / 2 ^ 53) \<le> rnd x" "rnd x \<le> hi * (1 + 1 / 2 ^ 53)"
proof -
  have e: "x * (1 - 1 / 2 ^ 53) \<le> rnd x" "rnd x \<le> x * (1 + 1 / 2 ^ 53)"
    using rnd_error [OF assms(1)] unfolding right_diff_distrib distrib_left mult_1_right times_divide_eq_right by linarith+
  have "lo * (1 - 1 / 2 ^ 53) \<le> x * (1 - 1 / 2 ^ 53)" "x * (1 + 1 / 2 ^ 53) \<le> hi * (1 + 1 / 2 ^ 53)"
    using assms by (auto intro!: mult_right_mono)
  with e show "lo * (1 - 1 / 2 ^ 53) \<le> rnd x" "rnd x \<le> hi * (1 + 1 / 2 ^ 53)" by linarith+
qed

section \<open>Distances\<close>

definition CVacuumMps :: rat where "CVacuumMps = 299792458"
definition FiberVelocityFactor :: rat where "FiberVelocityFactor = rnd (69 / 100)"
definition RouteFactor :: rat where "RouteFactor = 125 / 100"

text \<open>\<open>Duration.Seconds\<close>, for a duration that is not negative: whole seconds plus the rest.\<close>

definition seconds_of :: "int \<Rightarrow> rat" where
  "seconds_of n =
     (let sec = n div 1000000000; nsec = n mod 1000000000
      in rnd (rnd (of_int sec) + rnd (rnd (of_int nsec) / 1000000000)))"

definition Seconds :: "duration \<Rightarrow> rat" where
  "Seconds d = seconds_of (sint d)"

definition ProvableMaxDistance :: "duration \<Rightarrow> rat" where
  "ProvableMaxDistance rtt =
     (if sint rtt \<le> 0 then 0 else rnd (rnd (Seconds rtt / 2) * CVacuumMps))"

definition CalibratedDistance :: "duration \<Rightarrow> duration \<Rightarrow> rat" where
  "CalibratedDistance rtt processingDelay =
     (let net = rtt - processingDelay in
      if sint net \<le> 0 then 0
      else rnd (rnd (rnd (rnd (Seconds net / 2) * FiberVelocityFactor) * CVacuumMps) / RouteFactor))"

lemma sint64_bounds: "sint (d :: duration) < 2 ^ 63" "- (2 ^ 63) \<le> sint d"
  using sint_lt [of d] sint_ge [of d] by simp_all

lemma seconds_of_eq:
  assumes "0 \<le> n" "n < 2 ^ 63"
  shows "seconds_of n = rnd (of_int (n div 1000000000) + rnd (of_int (n mod 1000000000) / 1000000000))"
proof -
  have "0 \<le> n div 1000000000" "n div 1000000000 \<le> 2 ^ 53" "0 \<le> n mod 1000000000" "n mod 1000000000 \<le> 2 ^ 53"
    using assms pos_mod_bound [of 1000000000 n] zdiv_mono1 [of n "2 ^ 63" 1000000000] by (simp_all add: pos_imp_zdiv_nonneg_iff)
  then show ?thesis by (simp add: seconds_of_def Let_def rnd_int)
qed

text \<open>Seconds are monotone and accurate.\<close>

lemma seconds_of_mono:
  assumes "0 \<le> n" "n \<le> n'" "n' < 2 ^ 63"
  shows "seconds_of n \<le> seconds_of n'"
proof -
  let ?B = "1000000000 :: int"
  have eq: "seconds_of n = rnd (of_int (n div ?B) + rnd (of_int (n mod ?B) / 1000000000))"
    "seconds_of n' = rnd (of_int (n' div ?B) + rnd (of_int (n' mod ?B) / 1000000000))"
    using assms by (simp_all add: seconds_of_eq)
  have le: "n div ?B \<le> n' div ?B" using assms(2) by (rule zdiv_mono1) simp
  have "rat_of_int (n div ?B) + rnd (of_int (n mod ?B) / 1000000000)
        \<le> of_int (n' div ?B) + rnd (of_int (n' mod ?B) / 1000000000)"
  proof (cases "n div ?B = n' div ?B")
    case True
    then have "n mod ?B \<le> n' mod ?B"
      using assms(2) div_mult_mod_eq [of n ?B] div_mult_mod_eq [of n' ?B] by linarith
    then have "rat_of_int (n mod ?B) / 1000000000 \<le> of_int (n' mod ?B) / 1000000000" by (simp add: divide_right_mono)
    from rnd_mono [OF this] True show ?thesis by simp
  next
    case False
    with le have s: "n div ?B + 1 \<le> n' div ?B" by simp
    have "n mod ?B \<le> ?B" using pos_mod_bound [of ?B n] by simp
    then have "rat_of_int (n mod ?B) \<le> of_int ?B" by (simp only: of_int_le_iff)
    then have "rat_of_int (n mod ?B) / 1000000000 \<le> 1" by simp
    from rnd_mono [OF this] have "rnd (of_int (n mod ?B) / 1000000000) \<le> 1" using rnd_int [of 1] by simp
    moreover have "rat_of_int (n div ?B) + 1 \<le> of_int (n' div ?B)" using s by (metis of_int_1 of_int_add of_int_le_iff)
    ultimately show ?thesis using rnd_nonneg [of "of_int (n' mod ?B) / 1000000000"] by linarith
  qed
  from rnd_mono [OF this] show ?thesis unfolding eq .
qed

lemma seconds_of_accurate:
  assumes "0 \<le> n" "n < 2 ^ 63"
  defines "S \<equiv> rat_of_int n / 1000000000"
  shows "S * (1 - 1 / 2 ^ 53) * (1 - 1 / 2 ^ 53) \<le> seconds_of n" "seconds_of n \<le> S * (1 + 1 / 2 ^ 53) * (1 + 1 / 2 ^ 53)"
proof -
  let ?a = "rat_of_int (n div 1000000000)" and ?b = "rat_of_int (n mod 1000000000) / 1000000000"
  have "rat_of_int n = ?a * 1000000000 + of_int (n mod 1000000000)"
    by (metis div_mult_mod_eq of_int_add of_int_mult of_int_numeral)
  then have S: "S = ?a + ?b" by (simp add: S_def add_divide_distrib)
  have nn: "0 \<le> ?a" "0 \<le> ?b" using assms(1) by (simp_all add: pos_imp_zdiv_nonneg_iff)
  have b: "?b * (1 - 1 / 2 ^ 53) \<le> rnd ?b" "rnd ?b \<le> ?b * (1 + 1 / 2 ^ 53)" using rnd_between [OF nn(2) order_refl order_refl] .
  have a: "?a * (1 - 1 / 2 ^ 53) \<le> ?a" "?a \<le> ?a * (1 + 1 / 2 ^ 53)" using nn(1) by (simp_all add: algebra_simps)
  have "0 \<le> ?a + rnd ?b" using nn(1) rnd_nonneg [of ?b] by linarith
  moreover have "S * (1 - 1 / 2 ^ 53) \<le> ?a + rnd ?b" "?a + rnd ?b \<le> S * (1 + 1 / 2 ^ 53)"
    using a b unfolding S distrib_right by linarith+
  ultimately show "S * (1 - 1 / 2 ^ 53) * (1 - 1 / 2 ^ 53) \<le> seconds_of n" "seconds_of n \<le> S * (1 + 1 / 2 ^ 53) * (1 + 1 / 2 ^ 53)"
    unfolding seconds_of_eq [OF assms(1,2)] using rnd_between by blast+
qed

lemma seconds_of_half: "rnd (seconds_of n / 2) = seconds_of n / 2"
  by (simp add: seconds_of_def Let_def rnd_half)

lemma seconds_of_nonneg: "0 \<le> seconds_of n"
  by (simp add: seconds_of_def Let_def rnd_nonneg)

text \<open>Three roundings at the vacuum speed of light.\<close>

lemma distance_accurate:
  assumes "0 < n" "n < 2 ^ 63"
  defines "E \<equiv> rat_of_int n / 1000000000 / 2 * 299792458"
  shows "\<bar>rnd (seconds_of n / 2 * 299792458) - E\<bar> \<le> E / 2 ^ 51"
proof -
  define S where "S = rat_of_int n / 1000000000"
  define lo hi :: rat where "lo = 1 - 1 / 2 ^ 53" and "hi = 1 + 1 / 2 ^ 53"
  have E: "E = S / 2 * 299792458" "E > 0" using assms(1) by (simp_all add: E_def S_def)
  let ?h = "seconds_of n / 2 * 299792458"
  have "S * lo * lo \<le> seconds_of n" "seconds_of n \<le> S * hi * hi"
    using seconds_of_accurate [of n] assms(1,2) by (simp_all only: S_def lo_def hi_def)
  then have "E * lo * lo \<le> ?h" "?h \<le> E * hi * hi" "0 \<le> ?h"
    using seconds_of_nonneg [of n] unfolding E(1) by (simp_all add: field_simps)
  from rnd_between [OF this(3,1,2)] have r: "E * lo * lo * lo \<le> rnd ?h" "rnd ?h \<le> E * hi * hi * hi"
    by (simp_all only: lo_def hi_def)
  have c: "1 - 1 / 2 ^ 51 \<le> lo * lo * lo" "hi * hi * hi \<le> 1 + 1 / 2 ^ 51" by (simp_all add: lo_def hi_def)
  have "E * (1 - 1 / 2 ^ 51) \<le> E * (lo * lo * lo)" "E * (hi * hi * hi) \<le> E * (1 + 1 / 2 ^ 51)"
    using c E(2) by (auto intro!: mult_left_mono)
  then have "E * (1 - 1 / 2 ^ 51) \<le> rnd ?h" "rnd ?h \<le> E * (1 + 1 / 2 ^ 51)" using r by (simp_all only: mult.assoc)
  then show ?thesis
    unfolding right_diff_distrib distrib_left mult_1_right times_divide_eq_right by linarith
qed

text \<open>The fiber model applied to half a round trip is monotone and stays below the speed of light.\<close>

definition fiber :: "rat \<Rightarrow> rat" where
  "fiber h = rnd (rnd (rnd (h * FiberVelocityFactor) * CVacuumMps) / RouteFactor)"

lemma fiber_factor: "0 \<le> FiberVelocityFactor" "FiberVelocityFactor \<le> 1"
  using rnd_mono [of "69 / 100" 1] rnd_int [of 1] by (simp_all add: FiberVelocityFactor_def rnd_nonneg)

lemma fiber_mono: "h \<le> h' \<Longrightarrow> fiber h \<le> fiber h'"
  unfolding fiber_def using fiber_factor(1)
  by (intro rnd_mono divide_right_mono mult_right_mono) (simp_all add: CVacuumMps_def RouteFactor_def)

lemma fiber_le_vacuum:
  assumes "0 \<le> h" "rnd h = h"
  shows "fiber h \<le> rnd (h * CVacuumMps)"
proof -
  have "rnd (h * FiberVelocityFactor) \<le> rnd h" using assms(1) fiber_factor by (intro rnd_mono mult_left_le) auto
  then have "rnd (h * FiberVelocityFactor) * CVacuumMps \<le> h * CVacuumMps"
    using assms(2) by (simp add: CVacuumMps_def)
  from rnd_mono [OF this] have "rnd (rnd (h * FiberVelocityFactor) * CVacuumMps) / RouteFactor \<le> rnd (h * CVacuumMps)"
    using rnd_nonneg [of "h * CVacuumMps"] by (simp add: RouteFactor_def)
  from rnd_mono [OF this] show ?thesis by (simp add: fiber_def rnd_rnd)
qed

lemma sint_diff_nonneg:
  assumes "0 \<le> sint a" "0 \<le> sint (b :: duration)"
  shows "sint (a - b) = sint a - sint b"
  using assms sint64_bounds [of a] sint64_bounds [of b]
  by (simp add: sint_word_diff signed_take_bit_int_eq_self)

lemma ProvableMaxDistance_error:
  assumes "0 < sint rtt"
  shows "\<bar>ProvableMaxDistance rtt - of_int (sint rtt) / 1000000000 / 2 * 299792458\<bar>
    \<le> of_int (sint rtt) / 1000000000 / 2 * 299792458 / 2 ^ 51"
  using assms distance_accurate [OF assms sint64_bounds(1)]
  by (simp add: ProvableMaxDistance_def Seconds_def seconds_of_half CVacuumMps_def del: of_int_sint)

section \<open>Properties\<close>

text \<open>
  C27 (\<open>provable_distance_accurate\<close>). The provable distance computed in floating point refines the formula
  of the specification, half the round trip at the vacuum speed of light: it is zero for a round trip
  that is not positive, and otherwise within a relative error of \<open>2 ^ - 51\<close> of the exact value, which
  is below a micrometre for any distance on Earth. It never decreases when the round trip grows.
\<close>

theorem provable_distance_accurate:
  "(sint rtt \<le> 0 \<longrightarrow> ProvableMaxDistance rtt = 0)
   \<and> (0 < sint rtt \<longrightarrow>
        \<bar>ProvableMaxDistance rtt - of_int (sint rtt) / 1000000000 / 2 * 299792458\<bar>
          \<le> of_int (sint rtt) / 1000000000 / 2 * 299792458 / 2 ^ 51)
   \<and> (sint rtt \<le> sint rtt' \<longrightarrow> ProvableMaxDistance rtt \<le> ProvableMaxDistance rtt')"
proof (intro conjI impI)
  assume "0 < sint rtt"
  then show "\<bar>ProvableMaxDistance rtt - of_int (sint rtt) / 1000000000 / 2 * 299792458\<bar>
          \<le> of_int (sint rtt) / 1000000000 / 2 * 299792458 / 2 ^ 51"
    by (rule ProvableMaxDistance_error)
next
  assume "sint rtt \<le> sint rtt'"
  then show "ProvableMaxDistance rtt \<le> ProvableMaxDistance rtt'"
    using seconds_of_mono [of "sint rtt" "sint rtt'"] sint64_bounds(1) [of rtt']
    by (auto simp: ProvableMaxDistance_def Seconds_def seconds_of_half CVacuumMps_def rnd_nonneg intro!: rnd_mono)
qed (simp add: ProvableMaxDistance_def)

theorem provable_distance_accurate_witness:
  "\<bar>ProvableMaxDistance 10000000 - 1498962.29\<bar> \<le> 1498962.29 / 2 ^ 51"
  using provable_distance_accurate [of 10000000 0] by simp

text \<open>
  C34 (\<open>calibrated_within_provable\<close>). For a measurement and a processing delay that are not negative, the
  calibrated estimate never exceeds the provable bound, and taking the delay off can only shrink the
  estimate; a delay that accounts for the whole measurement gives zero.
\<close>

theorem calibrated_within_provable:
  assumes "0 \<le> sint rtt" "0 \<le> sint delay"
  shows "CalibratedDistance rtt delay \<le> CalibratedDistance rtt 0 \<and> CalibratedDistance rtt 0 \<le> ProvableMaxDistance rtt
    \<and> (sint rtt \<le> sint delay \<longrightarrow> CalibratedDistance rtt delay = 0)"
proof -
  have net: "sint (rtt - delay) = sint rtt - sint delay" by (rule sint_diff_nonneg [OF assms])
  have cal: "CalibratedDistance rtt d = (if sint (rtt - d) \<le> 0 then 0 else fiber (seconds_of (sint (rtt - d)) / 2))" for d
    by (simp add: CalibratedDistance_def Let_def Seconds_def seconds_of_half fiber_def)
  have "CalibratedDistance rtt delay \<le> CalibratedDistance rtt 0"
    using seconds_of_mono [of "sint rtt - sint delay" "sint rtt"] sint64_bounds(1) [of rtt] assms
    by (auto simp: cal net intro!: fiber_mono) (simp add: fiber_def rnd_nonneg)
  moreover have "CalibratedDistance rtt 0 \<le> ProvableMaxDistance rtt"
    using fiber_le_vacuum [of "seconds_of (sint rtt) / 2"] seconds_of_nonneg [of "sint rtt"]
    by (simp add: cal ProvableMaxDistance_def Seconds_def seconds_of_half)
  moreover have "sint rtt \<le> sint delay \<longrightarrow> CalibratedDistance rtt delay = 0" by (simp add: cal net)
  ultimately show ?thesis by blast
qed

theorem calibrated_within_provable_witness:
  "CalibratedDistance 10000000 500000 \<le> CalibratedDistance 10000000 0 \<and> CalibratedDistance 10000000 0 \<le> ProvableMaxDistance 10000000"
  using calibrated_within_provable [of 10000000 500000] by simp

end
