(* ===== verification/Attester.thy ===== *)
theory Attester
  imports Sender Keys Location_Offset Geo
begin

text \<open>
  The attester (\<open>cmd/attester/main.go\<close>): what it reports about a probe pair, one measurement, and the
  loop of \<open>run\<close> around it. An observation has the fields of the Go struct; instants that the program
  prints are kept as instants (\<open>Presentation\<close> has their text), floating-point results are the
  rationals of the theory \<open>Geo\<close>, and coordinates stay the bit patterns of the reply. Text is a byte
  string.
\<close>

section \<open>Configuration\<close>

record attester_flags =
  anchorAddr :: bytes
  anchorKeyHex :: bytes
  at_keyPath :: string
  at_count :: nat
  at_timeout :: duration
  unchallenged :: bool
  processingDelay :: duration
  jsonOut :: bool
  raw :: bool
  printKey :: bool

section \<open>Observations\<close>

record offsetView =
  ov_Authority :: bytes
  ov_Sender :: bytes
  ov_Lat :: float64
  ov_Lon :: float64
  ov_RttNs :: uint64
  ov_Valid :: bool

record observation =
  ob_Seq :: uint32
  Timestamp :: gotime
  AnchorKey :: bytes
  AttesterKey :: bytes
  AnchorMeasuredRttNs :: uint64
  AnchorMeasuredRttS :: rat
  AttesterMeasuredRttNs :: uint64
  ob_Challenged :: bool
  ob_Lat :: float64
  ob_Lon :: float64
  ProvableMaxDistanceM :: rat
  CalibratedDistanceM :: rat
  ob_ObservedAt :: "gotime option"
  Reply0Valid :: bool
  Reply1Valid :: bool
  AnchorKeyMatch :: bool
  Reply0Raw :: bytes
  Reply1Raw :: bytes
  ob_Offsets :: "offsetView list"

definition marshalReply :: "ReplyPacket \<Rightarrow> (packet_error, bytes) result" where
  "marshalReply r =
     (case ReplyPacket_Marshal r (zeros MaxReplyPacketSize) of
        Ok (n, buf) \<Rightarrow> Ok (base64_encode (take n buf))
      | Err _ \<Rightarrow> Ok []
      | Panic \<Rightarrow> Panic)"

text \<open>The view of one offset blob; a blob that does not decode is listed as invalid.\<close>

definition view_offset :: "ed25519 \<Rightarrow> bytes \<Rightarrow> (packet_error, offsetView) result" where
  "view_offset c blob =
     (case Unmarshal blob of
        Panic \<Rightarrow> Panic
      | Err _ \<Rightarrow> Ok \<lparr>ov_Authority = [], ov_Sender = [], ov_Lat = 0, ov_Lon = 0, ov_RttNs = 0, ov_Valid = False\<rparr>
      | Ok lo \<Rightarrow> Ok \<lparr>ov_Authority = Format (o_AuthorityPubkey lo), ov_Sender = Format (o_SenderPubkey lo),
           ov_Lat = o_Lat lo, ov_Lon = o_Lng lo, ov_RttNs = o_RttNs lo, ov_Valid = (VerifyChain c lo = Ok ())\<rparr>)"

fun view_offsets :: "ed25519 \<Rightarrow> bytes list \<Rightarrow> (packet_error, offsetView list) result" where
  "view_offsets c [] = Ok []"
| "view_offsets c (blob # blobs) =
     bind_r (view_offset c blob) (\<lambda>v. bind_r (view_offsets c blobs) (\<lambda>vs. Ok (v # vs)))"

text \<open>\<open>float64(n) / 1e9\<close>.\<close>

definition float_seconds :: "uint64 \<Rightarrow> rat" where
  "float_seconds n = rnd (rnd (of_nat (unat n)) / 1000000000)"

definition observe ::
    "ed25519 \<Rightarrow> attester_flags \<Rightarrow> gotime \<Rightarrow> uint32 \<Rightarrow> ProbePairResult \<Rightarrow> bytes \<Rightarrow> bytes \<Rightarrow>
     (packet_error, observation) result" where
  "observe c fl now sq res anchorPub pub =
     (let reply = Reply1 res;
          rtt = RttNs reply
      in
      bind_r (if raw fl then marshalReply (Reply0 res) else Ok []) (\<lambda>raw0.
      bind_r (if raw fl then marshalReply reply else Ok []) (\<lambda>raw1.
      bind_r (view_offsets c (Offsets reply)) (\<lambda>views.
      Ok \<lparr>ob_Seq = sq, Timestamp = now, AnchorKey = Format anchorPub, AttesterKey = Format pub,
         AnchorMeasuredRttNs = SinceLastRxNs reply, AnchorMeasuredRttS = float_seconds (SinceLastRxNs reply),
         AttesterMeasuredRttNs = (if sint (RTT1 res) < sint (RTT0 res) then RTT1 res else RTT0 res),
         ob_Challenged = Challenged reply, ob_Lat = Lat reply, ob_Lon = Lng reply,
         ProvableMaxDistanceM = ProvableMaxDistance rtt,
         CalibratedDistanceM = CalibratedDistance rtt (processingDelay fl),
         ob_ObservedAt = (if MeasurementSlot reply > 0 then Some (time_Unix 0 (sint (MeasurementSlot reply))) else None),
         Reply0Valid = ReplyPacket_Verify c (Reply0 res), Reply1Valid = ReplyPacket_Verify c reply,
         AnchorKeyMatch = (AuthorityPubkey reply = anchorPub),
         Reply0Raw = raw0, Reply1Raw = raw1, ob_Offsets = views\<rparr>))))"

section \<open>One measurement\<close>

text \<open>
  A report is an observation or, with the sequence number and the time, an error; a deadline is
  reported as a timeout, however deep it is wrapped.
\<close>

datatype pair_error = TimedOut | PairError send_error

datatype report = Observed observation | Errored uint32 gotime pair_error

fun is_deadline :: "send_error \<Rightarrow> bool" where
  "is_deadline (Ctx e) = (e = CtxDeadline)"
| "is_deadline (AtProbe0 e) = is_deadline e"
| "is_deadline (AtProbe1 e) = is_deadline e"
| "is_deadline _ = False"

fun is_panic :: "send_error \<Rightarrow> bool" where
  "is_panic Panicked = True"
| "is_panic (AtProbe0 e) = is_panic e"
| "is_panic (AtProbe1 e) = is_panic e"
| "is_panic _ = False"

text \<open>
  The environment of one turn of the loop: whether the context is done at its head and in the select
  at its end, \<open>time.Now()\<close> in \<open>WithTimeout\<close> and for the timestamp, and the two exchanges.
\<close>

record turn =
  tn_ctx_err :: bool
  tn_now :: gotime
  tn_pair :: pair_env
  tn_exchange1 :: exchange
  tn_stamp :: gotime
  tn_ctx_done :: bool

datatype measured = Report report | InPair | MeasurePanics

text \<open>The pair runs under a context whose deadline is \<open>timeout\<close> from now.\<close>

definition pair_deadline :: "attester_flags \<Rightarrow> turn \<Rightarrow> gotime" where
  "pair_deadline fl t = Add (tn_now t) (at_timeout fl)"

definition measure_pair ::
    "ed25519 \<Rightarrow> attester_flags \<Rightarrow> turn \<Rightarrow> uint32 \<Rightarrow> bytes \<Rightarrow> bytes \<Rightarrow> LinuxSender \<Rightarrow> LinuxSender \<times> measured" where
  "measure_pair c fl t sq anchorPub pub s =
     (let dl = Some (pair_deadline fl t);
          env = (tn_pair t)\<lparr>pe_exchange := (pe_exchange (tn_pair t))\<lparr>ex_deadline := dl\<rparr>\<rparr>;
          env1 = (tn_exchange1 t)\<lparr>ex_deadline := dl\<rparr>
      in case ProbePair c env env1 s of
        (s', sent, Waiting) \<Rightarrow> (s', InPair)
      | (s', sent, Returns (Inl e)) \<Rightarrow>
          (s', if is_panic e then MeasurePanics
               else Report (Errored sq (tn_stamp t) (if is_deadline e then TimedOut else PairError e)))
      | (s', sent, Returns (Inr res)) \<Rightarrow>
          (s', case observe c fl (tn_stamp t) sq res anchorPub pub of
                 Ok obs \<Rightarrow> Report (Observed obs) | _ \<Rightarrow> MeasurePanics))"

section \<open>The loop\<close>

text \<open>How the loop ends within a script: it may also still be running, or be inside a pair.\<close>

datatype loop_result = Counted | Interrupted | StillRunning | StuckInPair | LoopPanics

fun attest_loop ::
    "ed25519 \<Rightarrow> attester_flags \<Rightarrow> bytes \<Rightarrow> bytes \<Rightarrow> uint32 \<Rightarrow> turn list \<Rightarrow> LinuxSender \<Rightarrow>
     LinuxSender \<times> report list \<times> loop_result" where
  "attest_loop c fl anchorPub pub sq [] s = (s, [], StillRunning)"
| "attest_loop c fl anchorPub pub sq (t # ts) s =
     (if tn_ctx_err t then (s, [], Interrupted)
      else case measure_pair c fl t sq anchorPub pub s of
        (s', InPair) \<Rightarrow> (s', [], StuckInPair)
      | (s', MeasurePanics) \<Rightarrow> (s', [], LoopPanics)
      | (s', Report rep) \<Rightarrow>
          if at_count fl > 0 \<and> unat sq \<ge> at_count fl then (s', [rep], Counted)
          else if tn_ctx_done t then (s', [rep], Interrupted)
          else (case attest_loop c fl anchorPub pub (sq + 1) ts s' of (s'', reps, e) \<Rightarrow> (s'', rep # reps, e)))"

section \<open>The program\<close>

datatype attester_error =
    AttesterKeys key_error
  | AnchorRequired
  | AnchorKeyRequired
  | ResolveAnchor
  | CreateSender new_sender_error

record attester_env =
  at_gen :: gen_env
  at_read_error :: bool
  at_resolve :: "(nat \<times> bytes option) option"
  at_socket :: sender_env

text \<open>The set is that of the descriptors open when \<open>run\<close> returns; an unfinished loop keeps them.\<close>

datatype attester_end = PrintedKey bytes | Attested "report list" loop_result

definition attester_run ::
    "ed25519 \<Rightarrow> attester_flags \<Rightarrow> attester_env \<Rightarrow> turn list \<Rightarrow> files \<Rightarrow>
     files \<times> nat set \<times> (attester_error, attester_end) result" where
  "attester_run c fl env ts fs =
     (case LoadOrGenerate c (at_gen env) (at_read_error env) (at_keyPath fl) fs of (fs', generated, loaded) \<Rightarrow>
     (case bind_r loaded (\<lambda>k. bind_r (PublicOf k) (\<lambda>pub. Ok (k, pub))) of
        Panic \<Rightarrow> (fs', {}, Panic)
      | Err e \<Rightarrow> (fs', {}, Err (AttesterKeys e))
      | Ok (k, pub) \<Rightarrow>
     if printKey fl then (fs', {}, Ok (PrintedKey (Format pub)))
     else if anchorAddr fl = [] then (fs', {}, Err AnchorRequired)
     else if anchorKeyHex fl = [] then (fs', {}, Err AnchorKeyRequired)
     else case Parse (anchorKeyHex fl) of
        Panic \<Rightarrow> (fs', {}, Panic)
      | Err e \<Rightarrow> (fs', {}, Err (AttesterKeys e))
      | Ok anchorPub \<Rightarrow>
     (case at_resolve env of
        None \<Rightarrow> (fs', {}, Err ResolveAnchor)
      | Some rmt \<Rightarrow>
     (case NewSender (at_socket env) '''' (Some 0) rmt (NewEd25519Signer k) anchorPub (\<not> unchallenged fl) of
        (Inl e, fds) \<Rightarrow> (fs', fds, Err (CreateSender e))
      | (Inr s, fds) \<Rightarrow>
     (case attest_loop c fl anchorPub pub 1 ts s of
        (s', reps, LoopPanics) \<Rightarrow> (fs', fds, Panic)
      | (s', reps, e) \<Rightarrow>
          (fs', if e = Counted \<or> e = Interrupted then Sender_Close s' fds else fds, Ok (Attested reps e)))))))"

section \<open>Pairs that return\<close>

text \<open>
  The script of an exchange is long enough when it shows the end of the busy-poll window and, later,
  the deadline.
\<close>

definition timely :: "gotime \<Rightarrow> exchange \<Rightarrow> bool" where
  "timely dl env \<longleftrightarrow> (\<exists>xs e ys. ex_polls env = xs @ e # ys \<and> \<not> Before (po_now e) (Add (ex_now env) busyPollWindow)
     \<and> (\<exists>e' \<in> set ys. remaining_ms dl (po_now e') \<le> 0))"

definition timely_pair :: "gotime \<Rightarrow> pair_env \<Rightarrow> exchange \<Rightarrow> bool" where
  "timely_pair dl env env1 \<longleftrightarrow> timely dl (pe_exchange env) \<and> timely dl env1
     \<and> (\<exists>e \<in> set (pe_polls1 env). remaining_ms dl (po_now e) \<le> 0)"

lemma timely_await:
  assumes "timely dl env"
  shows "fst (await receive (Some (Add (ex_now env) busyPollWindow)) dl (ex_polls env)) \<notin> {Pending, WindowOver}"
proof -
  from assms obtain xs e ys where "ex_polls env = xs @ e # ys" "\<not> Before (po_now e) (Add (ex_now env) busyPollWindow)"
    "\<exists>e' \<in> set ys. remaining_ms dl (po_now e') \<le> 0" unfolding timely_def by blast
  then show ?thesis
    using await_returns [of "Some (Add (ex_now env) busyPollWindow)" "ex_polls env" ys dl receive] by blast
qed

text \<open>
  What a call that waits for a reply gives back: no panic, and replies that are well formed; \<open>over\<close> is
  whether the script lets it return.
\<close>

definition fine :: "bool \<Rightarrow> ('a \<Rightarrow> bool) \<Rightarrow> 'a waiting \<Rightarrow> bool" where
  "fine over P w = (case w of Waiting \<Rightarrow> \<not> over | Returns (Inl e) \<Rightarrow> \<not> is_panic e | Returns (Inr x) \<Rightarrow> P x)"

lemma tryRecv_no_panic: "tryRecv c s t p v r = Some (Inl e) \<Longrightarrow> \<not> is_panic e"
  by (auto simp: tryRecv_def reply_wire.dec_no_panic split: recv.splits if_splits result.splits option.splits)

lemma block_loop_Failed: "fst (block_loop receive dl es) = Failed e \<Longrightarrow> \<not> is_panic e"
  by (induction es) (auto split: if_splits prod.splits option.splits)

lemma busy_loop_Failed: "fst (busy_loop receive dl es) = Failed e \<Longrightarrow> \<not> is_panic e"
  by (induction es) (auto split: if_splits prod.splits option.splits)

lemma await_Failed:
  assumes "fst (await receive busy dl es) = Failed e"
  shows "\<not> is_panic e"
proof (cases busy)
  case None
  with assms block_loop_Failed show ?thesis by (auto simp: await_def)
next
  case (Some b)
  obtain r es' where l: "busy_loop receive b es = (r, es')" by fastforce
  show ?thesis
    using assms Some l busy_loop_Failed [of receive b es] block_loop_Failed [of receive dl es']
    by (cases r) (auto simp: await_def)
qed

lemma sendAndRecv_fine:
  assumes "over \<longrightarrow> timely dl env \<and> ex_deadline env = Some dl"
  shows "fine over (\<lambda>(rtt, reply). wf_reply reply \<and> Seq (Probe reply) = Seq p
      \<and> (v \<longrightarrow> AuthorityPubkey reply = remotePubkey s \<and> ReplyPacket_Verify c reply))
    (snd (sendAndRecv c s buf p v busyPollWindow env))"
proof (cases "ex_sendto env")
  case None
  let ?a = "fst (await (tryRecv c s (ex_now env) p v) (Some (Add (ex_now env) busyPollWindow)) (ex_limit env) (ex_polls env))"
  have w: "snd (sendAndRecv c s buf p v busyPollWindow env) = (case ?a of Got r \<Rightarrow> Returns r | Failed e \<Rightarrow> Returns (Inl e) | _ \<Rightarrow> Waiting)"
    using None by (simp add: sendAndRecv_def busyPollWindow_def)
  show ?thesis
  proof (cases ?a)
    case (Got x)
    then obtain e :: poll where t: "tryRecv c s (ex_now env) p v (po_recv e) = Some x" using await_sound [OF Got] by blast
    show ?thesis
    proof (cases x)
      case (Inl e)
      with t tryRecv_no_panic w Got show ?thesis by (simp add: fine_def)
    next
      case (Inr y)
      then obtain rtt reply where "y = (rtt, reply)" by fastforce
      with Inr t tryRecv_sound(1,2,5) [of c s "ex_now env" p v "po_recv e" rtt reply] w Got show ?thesis by (auto simp: fine_def)
    qed
  next
    case (Failed e)
    with await_Failed [OF this] w show ?thesis by (simp add: fine_def)
  qed (use w assms timely_await [of dl env "tryRecv c s (ex_now env) p v"] in \<open>auto simp: fine_def ex_limit_def\<close>)
qed (simp add: sendAndRecv_def fine_def)

lemma fine_cases:
  assumes "fine over P w"
  obtains "w = Waiting" "\<not> over" | e where "w = Returns (Inl e)" "\<not> is_panic e" | x where "w = Returns (Inr x)" "P x"
  using assms by (auto simp: fine_def split: waiting.splits sum.splits)

text \<open>
  The replies of a pair that a sender has measured: both well formed, the second signed by the expected anchor and an
  answer to the sender's second probe.
\<close>

definition good_pair :: "ed25519 \<Rightarrow> LinuxSender \<Rightarrow> ProbePairResult \<Rightarrow> bool" where
  "good_pair c s res \<longleftrightarrow> wf_reply (Reply0 res) \<and> wf_reply (Reply1 res) \<and> Seq (Probe (Reply1 res)) = seq s + 2
     \<and> AuthorityPubkey (Reply1 res) = remotePubkey s \<and> ReplyPacket_Verify c (Reply1 res)"

lemma next_seq_sel [simp]: "signer (next_seq s) = signer s" "remotePubkey (next_seq s) = remotePubkey s" "challenged (next_seq s) = challenged s"
  by (simp_all add: next_seq_def)

lemma seq_twice: "seq (next_seq (next_seq s)) = seq s + 2"
  by (simp add: next_seq_def)

lemma challenged_fine:
  assumes "signer_ok c (signer s)" "over \<longrightarrow> timely dl env0 \<and> ex_deadline env0 = Some dl \<and> timely dl env1 \<and> ex_deadline env1 = Some dl"
  shows "fine over (good_pair c s) (snd (snd (probePairChallenged c now env0 env1 s)))"
proof -
  have sg: "signer_ok c (signer (next_seq s))" "signer_ok c (signer (next_seq (next_seq s)))" using assms(1) by simp_all
  obtain p0 where p0: "marshalled (NewProbePacket c now (seq (next_seq s)) (signer (next_seq s))) = Inr (p0, probe_bytes p0)"
    using marshalled_new [OF sg(1)] by metis
  obtain sent0 w0 where x0: "sendAndRecv c (next_seq s) (probe_bytes p0) p0 False busyPollWindow env0 = (sent0, w0)" by fastforce
  have f0: "fine over (\<lambda>(rtt, reply). wf_reply reply) w0"
    using sendAndRecv_fine [of over dl env0 p0 False "next_seq s" c "probe_bytes p0"] assms(2) x0 by (auto simp: fine_def split: waiting.splits sum.splits)
  from f0 show ?thesis
  proof (cases rule: fine_cases)
    case (3 y)
    then obtain rtt0 rep0 where y: "y = (rtt0, rep0)" "wf_reply rep0" by (cases y) auto
    obtain p1 where p1: "marshalled (newChallengedProbePacket c (seq (next_seq (next_seq s))) (signer (next_seq (next_seq s))) (SinceLastRxNs rep0)) = Inr (p1, probe_bytes p1)"
      "Seq p1 = seq s + 2"
      using marshalled_challenged [OF sg(2), of "seq (next_seq (next_seq s))" "SinceLastRxNs rep0"] by (auto simp: seq_twice)
    obtain sent1 w1 where x1: "sendAndRecv c (next_seq (next_seq s)) (probe_bytes p1) p1 True busyPollWindow env1 = (sent1, w1)" by fastforce
    have f1: "fine over (\<lambda>(rtt, reply). wf_reply reply \<and> Seq (Probe reply) = seq s + 2 \<and> AuthorityPubkey reply = remotePubkey s \<and> ReplyPacket_Verify c reply) w1"
      using sendAndRecv_fine [of over dl env1 p1 True "next_seq (next_seq s)" c "probe_bytes p1"] assms(2) x1 p1(2) by simp
    from f1 show ?thesis
      by (cases rule: fine_cases) (use 3 y p0 p1 x0 x1 in \<open>auto simp: probePairChallenged_def Let_def fine_def good_pair_def\<close>)
  qed (use p0 x0 in \<open>simp_all add: probePairChallenged_def Let_def fine_def\<close>)
qed

lemma recvAndFire_no_panic: "recvAndFireProbe1 p0 fire r = Some (Inl e) \<Longrightarrow> \<not> is_panic e"
  by (auto simp: recvAndFireProbe1_def be_Uint32_def MinReplyPacketSize_def split: recv.splits if_splits result.splits option.splits)

lemma parse_reply0_no_panic: "parse_reply0 t0 f0 p0 buf oob = Inl e \<Longrightarrow> \<not> is_panic e"
  by (auto simp: parse_reply0_def reply_wire.dec_no_panic split: result.splits if_splits option.splits)

lemma parse_reply0_wf: "parse_reply0 t0 f0 p0 buf oob = Inr (rtt, rep) \<Longrightarrow> wf_reply rep"
  by (auto simp: parse_reply0_def split: result.splits if_splits option.splits dest: reply_wire.dec_wf)

lemma block_tryRecv:
  assumes "fst (block_loop (tryRecv c s t p True) dl es) = Got x"
  shows "(\<exists>e. x = Inl e \<and> \<not> is_panic e)
    \<or> (\<exists>rtt rep. x = Inr (rtt, rep) \<and> wf_reply rep \<and> Seq (Probe rep) = Seq p \<and> AuthorityPubkey rep = remotePubkey s \<and> ReplyPacket_Verify c rep)"
proof -
  from block_loop_sound [OF assms] obtain e :: poll where e: "tryRecv c s t p True (po_recv e) = Some x" by blast
  show ?thesis
  proof (cases x)
    case (Inl e')
    with e tryRecv_no_panic show ?thesis by blast
  next
    case (Inr y)
    then obtain rtt rep where "y = (rtt, rep)" by fastforce
    with Inr e tryRecv_sound(1,2,5) [of c s t p True "po_recv e" rtt rep] show ?thesis by auto
  qed
qed

text \<open>The unchallenged pair, from the arrival of reply 0 on.\<close>

lemma unchallenged_after_reply0:
  fixes env :: pair_env
  defines "x \<equiv> pe_exchange env"
  assumes p: "marshalled (NewProbePacket c (pe_now0 env) (seq (next_seq s)) (signer s)) = Inr (p0, probe_bytes p0)"
      "marshalled (NewProbePacket c (pe_now1 env) (seq (next_seq (next_seq s))) (signer s)) = Inr (p1, probe_bytes p1)"
    and p1: "Seq p1 = seq s + 2" and "ex_sendto x = None"
    and got: "fst (await (recvAndFireProbe1 p0 (pe_fire env)) (Some (Add (ex_now x) busyPollWindow)) (ex_limit x) (ex_polls x)) = Got (Inr (buf, ctl))"
    and over: "over \<longrightarrow> ex_deadline x = Some dl \<and> (\<exists>e \<in> set (pe_polls1 env). remaining_ms dl (po_now e) \<le> 0)"
  shows "fine over (good_pair c s) (snd (snd (probePairUnchallenged c env s)))"
proof -
  note run = probePairUnchallenged_def Let_def p fine_def \<open>ex_sendto x = None\<close> [unfolded x_def] got [unfolded x_def]
  let ?rcv = "tryRecv c (next_seq (next_seq s)) (fst (pe_fire env)) p1 True"
  let ?b = "fst (block_loop ?rcv (ex_limit (pe_exchange env)) (pe_polls1 env))"
  have b: "over \<Longrightarrow> ?b \<noteq> Pending \<and> ?b \<noteq> WindowOver"
    using over block_loop_returns [of "pe_polls1 env" dl ?rcv] by (auto simp: ex_limit_def x_def)
  show ?thesis
  proof (cases "parse_reply0 (ex_now (pe_exchange env)) (pe_fallback0 env) p0 buf ctl")
    case (Inl e')
    with parse_reply0_no_panic [OF this] show ?thesis by (simp add: run)
  next
    case (Inr z)
    then obtain rtt0 rep0 where z: "parse_reply0 (ex_now (pe_exchange env)) (pe_fallback0 env) p0 buf ctl = Inr (rtt0, rep0)"
      by (cases z) auto
    note w = parse_reply0_wf [OF z]
    show ?thesis
    proof (cases ?b)
      case (Got r)
      from block_tryRecv [OF this] Got z w p1 show ?thesis by (auto simp: run good_pair_def)
    next
      case (Failed e')
      with block_loop_Failed [OF this] z show ?thesis by (simp add: run)
    qed (use z b in \<open>auto simp: run\<close>)
  qed
qed

lemma unchallenged_fine:
  assumes "signer_ok c (signer s)"
    "over \<longrightarrow> timely dl (pe_exchange env) \<and> ex_deadline (pe_exchange env) = Some dl \<and> (\<exists>e \<in> set (pe_polls1 env). remaining_ms dl (po_now e) \<le> 0)"
  shows "fine over (good_pair c s) (snd (snd (probePairUnchallenged c env s)))"
proof -
  let ?s = "next_seq (next_seq s)" and ?x = "pe_exchange env"
  obtain p0 where p0: "marshalled (NewProbePacket c (pe_now0 env) (seq (next_seq s)) (signer s)) = Inr (p0, probe_bytes p0)"
    using marshalled_new [OF assms(1)] by metis
  obtain p1 where p1: "marshalled (NewProbePacket c (pe_now1 env) (seq ?s) (signer s)) = Inr (p1, probe_bytes p1)" "Seq p1 = seq s + 2"
    using marshalled_new [OF assms(1), of "pe_now1 env" "seq ?s"] by (auto simp: seq_twice)
  note run = probePairUnchallenged_def Let_def p0 p1 fine_def
  show ?thesis
  proof (cases "ex_sendto ?x")
    case None
    let ?rcv = "recvAndFireProbe1 p0 (pe_fire env)"
    let ?a = "fst (await ?rcv (Some (Add (ex_now ?x) busyPollWindow)) (ex_limit ?x) (ex_polls ?x))"
    show ?thesis
    proof (cases ?a)
      case (Got x)
      then obtain e :: poll where t: "?rcv (po_recv e) = Some x" using await_sound [OF Got] by blast
      show ?thesis
      proof (cases x)
        case (Inl e')
        then have "\<not> is_panic e'" using t recvAndFire_no_panic by blast
        with Inl Got None show ?thesis by (simp add: run)
      next
        case (Inr y)
        with Got have "?a = poll_end.Got (Inr (fst y, snd y))" by simp
        from unchallenged_after_reply0 [OF p0 p1(1,2) None this] assms(2) show ?thesis by blast
      qed
    next
      case (Failed e)
      with await_Failed [OF this] None show ?thesis by (simp add: run)
    qed (use assms(2) timely_await [of dl ?x ?rcv] None in \<open>auto simp: run ex_limit_def\<close>)
  qed (simp add: run)
qed

lemma ProbePair_fine:
  assumes "signer_ok c (signer s)" "ex_deadline (pe_exchange env) = Some dl" "ex_deadline env1 = Some dl"
  shows "fine (timely_pair dl env env1) (good_pair c s) (snd (snd (ProbePair c env env1 s)))"
  using challenged_fine [OF assms(1), of "timely_pair dl env env1" dl "pe_exchange env" env1 "pe_now0 env"]
    unchallenged_fine [OF assms(1), of "timely_pair dl env env1" dl env] assms(2,3)
  by (simp add: ProbePair_def timely_pair_def)

section \<open>What an observation says\<close>

lemma marshalReply_ok: "wf_reply r \<Longrightarrow> marshalReply r = Ok (base64_encode (reply_bytes r))"
proof -
  assume wf: "wf_reply r"
  then have sz: "ReplyPacket_Size r \<le> length (zeros MaxReplyPacketSize)"
    by (simp add: wf_reply_def wf_offsets_def ReplyPacket_Size_def)
  show ?thesis using ReplyPacket_Marshal_eq [OF wf sz] by (simp add: marshalReply_def length_reply_bytes [OF wf])
qed

lemma view_offset_ok: "\<exists>v. view_offset c b = Ok v \<and> (ov_Valid v \<longleftrightarrow> (\<exists>lo. Unmarshal b = Ok lo \<and> VerifyChain c lo = Ok ()))"
  using offset_wire.dec_no_panic [of b] by (cases "Unmarshal b") (auto simp: view_offset_def)

lemma view_offsets_ok:
  "\<exists>vs. view_offsets c bs = Ok vs
    \<and> list_all2 (\<lambda>b v. ov_Valid v \<longleftrightarrow> (\<exists>lo. Unmarshal b = Ok lo \<and> VerifyChain c lo = Ok ())) bs vs"
proof (induction bs)
  case (Cons b bs)
  then show ?case using view_offset_ok [of c b] by fastforce
qed simp

lemma observe_ok:
  assumes "wf_reply (Reply0 res)" "wf_reply (Reply1 res)"
  obtains obs where "observe c fl now sq res pk pub = Ok obs" "ob_Seq obs = sq"
    "raw fl \<Longrightarrow> Reply0Raw obs = base64_encode (reply_bytes (Reply0 res)) \<and> Reply1Raw obs = base64_encode (reply_bytes (Reply1 res))"
    "Reply0Valid obs = ReplyPacket_Verify c (Reply0 res)" "Reply1Valid obs = ReplyPacket_Verify c (Reply1 res)"
    "AnchorKeyMatch obs = (AuthorityPubkey (Reply1 res) = pk)"
    "AnchorMeasuredRttNs obs = SinceLastRxNs (Reply1 res)" "ob_Challenged obs = Challenged (Reply1 res)"
    "ob_Lat obs = Lat (Reply1 res)" "ob_Lon obs = Lng (Reply1 res)"
    "ProvableMaxDistanceM obs = ProvableMaxDistance (RttNs (Reply1 res))"
    "list_all2 (\<lambda>b v. ov_Valid v \<longleftrightarrow> (\<exists>lo. Unmarshal b = Ok lo \<and> VerifyChain c lo = Ok ())) (Offsets (Reply1 res)) (ob_Offsets obs)"
proof -
  obtain vs where "view_offsets c (Offsets (Reply1 res)) = Ok vs"
    "list_all2 (\<lambda>b v. ov_Valid v \<longleftrightarrow> (\<exists>lo. Unmarshal b = Ok lo \<and> VerifyChain c lo = Ok ())) (Offsets (Reply1 res)) vs"
    using view_offsets_ok by blast
  with assms that show thesis by (cases "raw fl") (simp_all add: observe_def Let_def marshalReply_ok)
qed

section \<open>Measurements\<close>

fun report_seq :: "report \<Rightarrow> uint32" where
  "report_seq (Observed obs) = ob_Seq obs"
| "report_seq (Errored sq now e) = sq"

lemma challenged_sender:
  "signer (fst (probePairChallenged c now env0 env1 s)) = signer s \<and> remotePubkey (fst (probePairChallenged c now env0 env1 s)) = remotePubkey s"
  by (simp add: probePairChallenged_def Let_def split: sum.split prod.split waiting.split)

lemma unchallenged_sender:
  "signer (fst (probePairUnchallenged c env s)) = signer s \<and> remotePubkey (fst (probePairUnchallenged c env s)) = remotePubkey s"
  by (simp add: probePairUnchallenged_def Let_def split: sum.split prod.split option.split poll_end.split)

lemma ProbePair_sender:
  "signer (fst (ProbePair c env env1 s)) = signer s" "remotePubkey (fst (ProbePair c env env1 s)) = remotePubkey s"
  by (simp_all add: ProbePair_def challenged_sender unchallenged_sender)

lemma timely_deadline [simp]: "timely dl (env\<lparr>ex_deadline := x\<rparr>) = timely dl env"
  by (simp add: timely_def)

lemma measure_pair_cases:
  assumes "signer_ok c (signer s)" "measure_pair c fl t sq pk pub s = (s', m)"
  obtains "m = InPair" "\<not> timely_pair (pair_deadline fl t) (tn_pair t) (tn_exchange1 t)"
  | e where "m = Report (Errored sq (tn_stamp t) e)"
  | obs res where "m = Report (Observed obs)" "good_pair c s res" "observe c fl (tn_stamp t) sq res pk pub = Ok obs"
proof -
  let ?dl = "Some (pair_deadline fl t)"
  let ?env = "(tn_pair t)\<lparr>pe_exchange := (pe_exchange (tn_pair t))\<lparr>ex_deadline := ?dl\<rparr>\<rparr>"
  let ?env1 = "(tn_exchange1 t)\<lparr>ex_deadline := ?dl\<rparr>"
  obtain s1 sent w where p: "ProbePair c ?env ?env1 s = (s1, sent, w)" by (metis prod_cases3)
  have "fine (timely_pair (pair_deadline fl t) (tn_pair t) (tn_exchange1 t)) (good_pair c s) w"
    using ProbePair_fine [OF assms(1), of ?env "pair_deadline fl t" ?env1] p by (simp add: timely_pair_def)
  then show thesis
  proof (cases rule: fine_cases)
    case 1
    with p assms(2) that(1) show ?thesis by (simp add: measure_pair_def Let_def)
  next
    case (2 e)
    with p assms(2) have "m = Report (Errored sq (tn_stamp t) (if is_deadline e then TimedOut else PairError e))"
      by (simp add: measure_pair_def Let_def)
    then show ?thesis by (rule that(2))
  next
    case (3 res)
    then have "wf_reply (Reply0 res)" "wf_reply (Reply1 res)" by (simp_all add: good_pair_def)
    then obtain obs where o: "observe c fl (tn_stamp t) sq res pk pub = Ok obs" using observe_ok by metis
    with 3 p assms(2) have "m = Report (Observed obs)" by (simp add: measure_pair_def Let_def)
    with 3 o show ?thesis by (intro that(3))
  qed
qed

lemma measure_pair_sender:
  "measure_pair c fl t sq pk pub s = (s', m) \<Longrightarrow> signer s' = signer s \<and> remotePubkey s' = remotePubkey s"
proof -
  let ?dl = "Some (pair_deadline fl t)"
  let ?env = "(tn_pair t)\<lparr>pe_exchange := (pe_exchange (tn_pair t))\<lparr>ex_deadline := ?dl\<rparr>\<rparr>"
  let ?env1 = "(tn_exchange1 t)\<lparr>ex_deadline := ?dl\<rparr>"
  obtain s1 sent w where p: "ProbePair c ?env ?env1 s = (s1, sent, w)" by (metis prod_cases3)
  assume "measure_pair c fl t sq pk pub s = (s', m)"
  with p have "s' = s1" by (auto simp: measure_pair_def Let_def split: waiting.splits sum.splits)
  with p ProbePair_sender [of c ?env ?env1 s] show ?thesis by simp
qed

lemma measure_reports:
  assumes "signer_ok c (signer s)" "timely_pair (pair_deadline fl t) (tn_pair t) (tn_exchange1 t)"
  obtains s' rep where "measure_pair c fl t sq pk pub s = (s', Report rep)" "report_seq rep = sq"
    "signer s' = signer s" "remotePubkey s' = remotePubkey s"
proof -
  obtain s' m where m: "measure_pair c fl t sq pk pub s = (s', m)" by fastforce
  note k = measure_pair_sender [OF m]
  from assms(1) m show thesis
  proof (cases rule: measure_pair_cases)
    case (3 obs res)
    then have "ob_Seq obs = sq" by (auto simp: observe_def Let_def bind_r_eq_Ok)
    with 3 m k that show ?thesis by simp
  qed (use assms(2) m k that in simp_all)
qed

section \<open>The loop\<close>

lemma seq_run_Cons: "n \<noteq> 0 \<Longrightarrow> map (\<lambda>i. sq + word_of_nat i) [0..<n] = sq # map (\<lambda>i. (sq + 1) + word_of_nat i) [0..<n - 1]"
  by (cases n) (auto simp: map_upt_Suc simp del: upt_Suc)

lemma attest_loop_counts:
  assumes "signer_ok c (signer s)" "unat sq + n = at_count fl" "0 < unat sq" "at_count fl < 2 ^ 32" "n < length ts"
    "\<forall>t \<in> set ts. \<not> tn_ctx_err t \<and> \<not> tn_ctx_done t \<and> timely_pair (pair_deadline fl t) (tn_pair t) (tn_exchange1 t)"
  shows "\<exists>s' reps. attest_loop c fl pk pub sq ts s = (s', reps, Counted)
    \<and> map report_seq reps = map (\<lambda>i. sq + word_of_nat i) [0..<Suc n]"
  using assms
proof (induction n arbitrary: sq ts s)
  case 0
  then obtain t ts' where ts: "ts = t # ts'" by (cases ts) auto
  obtain s' rep where m: "measure_pair c fl t sq pk pub s = (s', Report rep)" "report_seq rep = sq"
    using measure_reports [OF 0(1)] 0(6) ts by (metis list.set_intros(1))
  with 0 ts show ?case by simp
next
  case (Suc n)
  then obtain t ts' where ts: "ts = t # ts'" by (cases ts) auto
  have t: "\<not> tn_ctx_err t" "\<not> tn_ctx_done t" "timely_pair (pair_deadline fl t) (tn_pair t) (tn_exchange1 t)"
    using Suc.prems(6) ts by simp_all
  obtain s' rep where m: "measure_pair c fl t sq pk pub s = (s', Report rep)" "report_seq rep = sq" "signer s' = signer s"
    using measure_reports [OF Suc.prems(1) t(3)] by metis
  have "unat (sq + 1) = unat sq + 1" using Suc.prems(2,4) by (intro unat_plus_if' [THEN trans]) simp
  then obtain s'' reps where l: "attest_loop c fl pk pub (sq + 1) ts' s' = (s'', reps, Counted)"
    "map report_seq reps = map (\<lambda>i. (sq + 1) + word_of_nat i) [0..<Suc n]"
    using Suc.IH [of s' "sq + 1" ts'] Suc.prems m(3) ts by auto
  have "attest_loop c fl pk pub sq ts s = (s'', rep # reps, Counted)"
    using t(1,2) m(1) l(1) Suc.prems(2) ts by simp
  moreover have "map report_seq (rep # reps) = map (\<lambda>i. sq + word_of_nat i) [0..<Suc (Suc n)]"
    using m(2) l(2) seq_run_Cons [of "Suc (Suc n)" sq] by (simp del: upt_Suc)
  ultimately show ?case by blast
qed

definition sample_attester_flags :: attester_flags where
  "sample_attester_flags = \<lparr>anchorAddr = [], anchorKeyHex = [], at_keyPath = ''k'', at_count = 1, at_timeout = 5000000000,
     unchallenged = False, processingDelay = 0, jsonOut = True, raw = True, printKey = False\<rparr>"

definition sample_turn :: "exchange \<Rightarrow> exchange \<Rightarrow> turn" where
  "sample_turn env0 env1 = \<lparr>tn_ctx_err = False, tn_now = \<lparr>wall = 0, mono = None\<rparr>,
     tn_pair = \<lparr>pe_now0 = \<lparr>wall = 0, mono = None\<rparr>, pe_now1 = \<lparr>wall = 0, mono = None\<rparr>, pe_exchange = env0,
       pe_fire = (\<lparr>wall = 0, mono = None\<rparr>, None), pe_fallback0 = \<lparr>wall = 0, mono = None\<rparr>, pe_polls1 = ex_polls env1\<rparr>,
     tn_exchange1 = env1, tn_stamp = \<lparr>wall = 0, mono = None\<rparr>, tn_ctx_done = False\<rparr>"

lemma sample_measure:
  obtains rep0 rep1 s' obs where
    "measure_pair toy_ed25519 sample_attester_flags (sample_turn (sample_exchange (reply_bytes rep0)) (sample_exchange (reply_bytes rep1))) 1
       (remotePubkey sample_sender) (zeros 32) sample_sender = (s', Report (Observed obs))"
    "ob_Lat obs = 0" "ob_Lon obs = 0" "ob_Offsets obs = []"
proof -
  obtain rep0 rep1 s' sent where
    c: "probePairChallenged toy_ed25519 \<lparr>wall = 0, mono = None\<rparr> (sample_exchange (reply_bytes rep0)) (sample_exchange (reply_bytes rep1)) sample_sender
       = (s', sent, Returns (Inr \<lparr>RTT0 = 1500, RTT1 = 1500, Reply0 = rep0, Reply1 = rep1\<rparr>))"
    and r1: "Lat rep1 = 0" "Lng rep1 = 0" "Offsets rep1 = []"
    by (rule toy_pair_completes)
  have dl: "(sample_exchange b)\<lparr>ex_deadline := Some \<lparr>wall = 5000000000, mono = None\<rparr>\<rparr> = sample_exchange b" for b
    by (simp add: sample_exchange_def)
  have ok: "signer_ok toy_ed25519 (signer sample_sender)" by (simp add: sample_sender_def toy_signer_ok)
  let ?t = "sample_turn (sample_exchange (reply_bytes rep0)) (sample_exchange (reply_bytes rep1))"
  let ?res = "\<lparr>RTT0 = 1500, RTT1 = 1500, Reply0 = rep0, Reply1 = rep1\<rparr> :: ProbePairResult"
  have "fine False (good_pair toy_ed25519 sample_sender) (Returns (Inr ?res))"
    using challenged_fine [OF ok, of False] c by (metis snd_conv)
  then have "wf_reply rep0" "wf_reply rep1" by (simp_all add: fine_def good_pair_def)
  then obtain obs where o: "observe toy_ed25519 sample_attester_flags (tn_stamp ?t) 1 ?res (remotePubkey sample_sender) (zeros 32) = Ok obs"
    using observe_ok [of ?res] by (metis ProbePairResult.select_convs(3,4))
  have ch: "challenged sample_sender" by (simp add: sample_sender_def)
  have "pair_deadline sample_attester_flags ?t = \<lparr>wall = 5000000000, mono = None\<rparr>"
    by (simp add: pair_deadline_def sample_turn_def sample_attester_flags_def Add_def)
  then have "measure_pair toy_ed25519 sample_attester_flags ?t 1 (remotePubkey sample_sender) (zeros 32) sample_sender = (s', Report (Observed obs))"
    using o c dl ch by (simp add: measure_pair_def Let_def ProbePair_def) (simp add: sample_turn_def dl)
  moreover have "ob_Lat obs = 0" "ob_Lon obs = 0" "ob_Offsets obs = []"
    using o r1 by (auto simp: observe_def Let_def bind_r_eq_Ok)
  ultimately show thesis by (rule that)
qed

section \<open>Properties\<close>

text \<open>The wire form of a reply that verifies: its last 64 bytes sign the rest.\<close>

lemma signed_tail:
  assumes "wf_reply r" "AuthorityPubkey r = pk" "ReplyPacket_Verify c r"
  shows "ed_Verify c pk (take (length (reply_bytes r) - 64) (reply_bytes r)) (drop (length (reply_bytes r) - 64) (reply_bytes r))"
proof -
  have "length (Signature r) = 64" using assms(1) by (simp add: wf_reply_def)
  with assms show ?thesis by (simp add: reply_bytes_def ReplyPacket_Verify_eq)
qed

text \<open>An exchange in which nothing arrives before the deadline.\<close>

definition silent_exchange :: exchange where
  "silent_exchange = (sample_exchange [])\<lparr>ex_polls := replicate 2 ((sample_poll [])\<lparr>po_now := \<lparr>wall = 6000000000, mono = None\<rparr>\<rparr>)\<rparr>"

lemma timely_now: "remaining_ms \<lparr>wall = 5000000000, mono = None\<rparr> \<lparr>wall = 6000000000, mono = None\<rparr> \<le> 0"
  by (simp add: remaining_ms_def Let_def sint_Sub time_diff_def sat64_def)

lemma timely_silent: "timely \<lparr>wall = 5000000000, mono = None\<rparr> silent_exchange"
  unfolding timely_def
  by (rule exI [of _ "[]"], rule exI, rule exI)
    (auto simp: silent_exchange_def numeral_2_eq_2 timely_now Before_def Add_def time_diff_def busyPollWindow_def)

text \<open>
  C4 (\<open>attester_evidence\<close>). The raw output is the evidence. When a pair is reported as observed with \<open>-raw\<close>,
  decoding the base64 of reply 1 gives bytes whose last 64 are a valid signature of the anchor key the
  attester was configured with over the rest, and which decode to a packet that says exactly what the
  summary says: interval, challenged flag, position, and the bound is computed from its RTT field; an
  offset is marked valid exactly when its blob decodes to a chain that verifies. The reply 0 that is
  shown decodes as well and its flag is the outcome of its own signature check.
\<close>

theorem attester_evidence:
  assumes "signer_ok c (signer s)" "measure_pair c fl t sq anchorPub pub s = (s', Report (Observed obs))"
    and "remotePubkey s = anchorPub" "raw fl"
  shows "\<exists>b1 rep. base64_decode (Reply1Raw obs) = Some b1 \<and> UnmarshalReplyPacket b1 = Ok rep
    \<and> ed_Verify c anchorPub (take (length b1 - 64) b1) (drop (length b1 - 64) b1)
    \<and> Reply1Valid obs \<and> AnchorKeyMatch obs \<and> ob_Seq obs = sq
    \<and> AnchorMeasuredRttNs obs = SinceLastRxNs rep \<and> ob_Challenged obs = Challenged rep
    \<and> ob_Lat obs = Lat rep \<and> ob_Lon obs = Lng rep \<and> ProvableMaxDistanceM obs = ProvableMaxDistance (RttNs rep)
    \<and> list_all2 (\<lambda>blob v. ov_Valid v \<longleftrightarrow> (\<exists>lo. Unmarshal blob = Ok lo \<and> VerifyChain c lo = Ok ())) (Offsets rep) (ob_Offsets obs)
    \<and> (\<exists>b0 rep0. base64_decode (Reply0Raw obs) = Some b0 \<and> UnmarshalReplyPacket b0 = Ok rep0
         \<and> Reply0Valid obs = ReplyPacket_Verify c rep0)"
  using assms(1,2)
proof (cases rule: measure_pair_cases)
  case (3 obs' res)
  then have [simp]: "obs' = obs" by simp
  have wf: "wf_reply (Reply0 res)" "wf_reply (Reply1 res)" "AuthorityPubkey (Reply1 res) = anchorPub" "ReplyPacket_Verify c (Reply1 res)"
    using 3(2) assms(3) by (simp_all add: good_pair_def)
  note v = signed_tail [OF wf(2-4)]
  show ?thesis
    by (rule observe_ok [OF wf(1,2), of c fl "tn_stamp t" sq anchorPub pub])
      (use 3(3) assms(4) wf v in \<open>simp add: base64_roundtrip reply_wire.dec_enc\<close>)
qed simp_all

theorem attester_evidence_witness:
  "\<exists>t s' obs b rep. measure_pair toy_ed25519 sample_attester_flags t 1 (remotePubkey sample_sender) (zeros 32) sample_sender
       = (s', Report (Observed obs))
     \<and> base64_decode (Reply1Raw obs) = Some b \<and> UnmarshalReplyPacket b = Ok rep \<and> Reply1Valid obs
     \<and> ed_Verify toy_ed25519 (remotePubkey sample_sender) (take (length b - 64) b) (drop (length b - 64) b)"
proof -
  obtain rep0 rep1 s' obs where m: "measure_pair toy_ed25519 sample_attester_flags
       (sample_turn (sample_exchange (reply_bytes rep0)) (sample_exchange (reply_bytes rep1))) 1
       (remotePubkey sample_sender) (zeros 32) sample_sender = (s', Report (Observed obs))"
    by (rule sample_measure)
  have ok: "signer_ok toy_ed25519 (signer sample_sender)" by (simp add: sample_sender_def toy_signer_ok)
  have r: "raw sample_attester_flags" by (simp add: sample_attester_flags_def)
  from attester_evidence [OF ok m refl r] m show ?thesis by blast
qed

text \<open>
  C24 (\<open>attester_counts\<close>). With a count below \<open>2 ^ 32\<close> the attester stops by itself: if it is not
  interrupted and every turn of the loop lasts long enough for its deadline to be seen, the loop reports
  exactly that many pairs, each as an observation or an error, numbered from 1 on without a gap, and
  returns. No answer of the network makes it panic.
\<close>

theorem attester_counts:
  assumes "signer_ok c (signer s)" "0 < at_count fl" "at_count fl < 2 ^ 32" "at_count fl \<le> length ts"
    and "\<forall>t \<in> set ts. \<not> tn_ctx_err t \<and> \<not> tn_ctx_done t \<and> timely_pair (pair_deadline fl t) (tn_pair t) (tn_exchange1 t)"
  shows "\<exists>s' reps. attest_loop c fl anchorPub pub 1 ts s = (s', reps, Counted)
    \<and> length reps = at_count fl \<and> map report_seq reps = map word_of_nat [1..<Suc (at_count fl)]"
proof -
  let ?n = "at_count fl - 1"
  have "unat (1 :: uint32) + ?n = at_count fl" "0 < unat (1 :: uint32)" "?n < length ts" using assms(2,4) by auto
  from attest_loop_counts [OF assms(1) this(1,2) assms(3) this(3) assms(5), of anchorPub pub] obtain s' reps where
    l: "attest_loop c fl anchorPub pub 1 ts s = (s', reps, Counted)" "map report_seq reps = map (\<lambda>i. 1 + word_of_nat i) [0..<Suc ?n]" by blast
  have n: "Suc ?n = at_count fl" using assms(2) by simp
  have "map (\<lambda>i. 1 + word_of_nat i :: uint32) [0..<Suc ?n] = map (word_of_nat \<circ> Suc) [0..<Suc ?n]" by simp
  also have "\<dots> = map word_of_nat [1..<Suc (at_count fl)]" unfolding n by (simp flip: map_map add: map_Suc_upt del: upt_Suc)
  finally have m: "map report_seq reps = map word_of_nat [1..<Suc (at_count fl)]" using l(2) by simp
  then have "length reps = at_count fl" by (metis diff_Suc_1 length_map length_upt)
  with l(1) m show ?thesis by blast
qed

theorem attester_counts_witness:
  "\<exists>s' reps. attest_loop toy_ed25519 sample_attester_flags (zeros 32) (zeros 32) 1 [sample_turn silent_exchange silent_exchange] sample_sender
       = (s', reps, Counted) \<and> length reps = 1"
proof -
  have ok: "signer_ok toy_ed25519 (signer sample_sender)" by (simp add: sample_sender_def toy_signer_ok)
  have t: "\<forall>t \<in> set [sample_turn silent_exchange silent_exchange]. \<not> tn_ctx_err t \<and> \<not> tn_ctx_done t
     \<and> timely_pair (pair_deadline sample_attester_flags t) (tn_pair t) (tn_exchange1 t)"
    using timely_silent by (simp add: timely_pair_def sample_turn_def pair_deadline_def sample_attester_flags_def Add_def) (simp add: silent_exchange_def timely_now)
  show ?thesis
    using attester_counts [OF ok _ _ _ t, of "zeros 32" "zeros 32"] by (auto simp: sample_attester_flags_def)
qed

end
