(* ===== verification/Go_Format.thy ===== *)
theory Go_Format
  imports Go_Net Go_Float Geo
begin

text \<open>
  Text that Go makes of numbers and dates: \<open>%d\<close>, \<open>%.Nf\<close>, \<open>time.RFC3339\<close> in UTC. Readers for these forms state
  what the text says.
\<close>

definition ascii :: "string \<Rightarrow> bytes" where
  "ascii s = map (\<lambda>ch. word_of_nat (of_char ch)) s"

section \<open>Digits\<close>

text \<open>The last \<open>w\<close> decimal digits of a number.\<close>

fun pad :: "nat \<Rightarrow> nat \<Rightarrow> bytes" where
  "pad 0 n = []"
| "pad (Suc w) n = pad w (n div 10) @ [digit_char (n mod 10)]"

definition is_digit :: "byte \<Rightarrow> bool" where
  "is_digit b \<longleftrightarrow> 48 \<le> unat b \<and> unat b \<le> 57"

definition digits_value :: "bytes \<Rightarrow> nat" where
  "digits_value ds = foldl (\<lambda>a b. 10 * a + (unat b - 48)) 0 ds"

lemma digits_value_snoc [simp]: "digits_value (ds @ [b]) = 10 * digits_value ds + (unat b - 48)"
  by (simp add: digits_value_def)

lemma length_pad [simp]: "length (pad w n) = w"
  by (induction w arbitrary: n) auto

lemma digits_pad [simp]: "digits_value (pad w n) = n mod 10 ^ w"
proof (induction w arbitrary: n)
  case (Suc w)
  have "n mod 10 ^ Suc w = 10 * (n div 10 mod 10 ^ w) + n mod 10"
    by (simp add: mod_mult2_eq)
  with Suc show ?case by (simp add: unat_digit_char)
qed (simp add: digits_value_def)

lemma pad_digits: "b \<in> set (pad w n) \<Longrightarrow> is_digit b"
  by (induction w arbitrary: n) (auto simp: is_digit_def unat_digit_char)

lemma digits_decimal [simp]: "digits_value (decimal n) = n"
proof (induction n rule: decimal.induct)
  case (1 n)
  show ?case
  proof (cases "n < 10")
    case True
    then have "decimal n = [] @ [digit_char n]" by (simp add: decimal.simps)
    with True show ?thesis by (simp only: digits_value_snoc) (simp add: digits_value_def unat_digit_char)
  next
    case False
    then have "decimal n = decimal (n div 10) @ [digit_char (n mod 10)]" by (subst decimal.simps) simp
    with 1(1) [OF False] show ?thesis by (simp add: unat_digit_char)
  qed
qed

lemma decimal_digits: "b \<in> set (decimal n) \<Longrightarrow> is_digit b"
  using decimal_chars by (simp add: is_digit_def)

section \<open>Fixed-point numbers\<close>

text \<open>
  \<open>%.pf\<close> for a number that is not negative: the exact value rounded to \<open>p\<close> decimal places, ties to even.
\<close>

definition fixed :: "nat \<Rightarrow> rat \<Rightarrow> bytes" where
  "fixed p x = (let n = nat (round_even (x * 10 ^ p)) in decimal (n div 10 ^ p) @ 46 # pad p n)"

text \<open>\<open>%.pf\<close> for a \<open>float64\<close> of any kind; the sign of a negative zero is printed.\<close>

definition f64_finite :: "float64 \<Rightarrow> bool" where
  "f64_finite b \<longleftrightarrow> f64_exponent b \<noteq> 2047"

definition fixed_f64 :: "nat \<Rightarrow> float64 \<Rightarrow> bytes" where
  "fixed_f64 p b =
     (if is_nan b then ascii ''NaN''
      else if \<not> f64_finite b then ascii (if f64_negative b then ''-Inf'' else ''+Inf'')
      else (if f64_negative b then [45] else []) @ fixed p (f64_magnitude b))"

text \<open>Reading digits, a point, digits.\<close>

definition read_fixed :: "bytes \<Rightarrow> rat option" where
  "read_fixed s =
     (let w = takeWhile is_digit s; f = drop (length w + 1) s
      in if w \<noteq> [] \<and> drop (length w) s \<noteq> [] \<and> s ! length w = 46 \<and> f \<noteq> [] \<and> list_all is_digit f
         then Some (of_nat (digits_value w) + of_nat (digits_value f) / 10 ^ length f) else None)"

lemma takeWhile_digits:
  assumes "\<forall>b \<in> set ds. is_digit b" "\<not> is_digit x"
  shows "takeWhile is_digit (ds @ x # rest) = ds"
  using assms by (induction ds) auto

lemma round_even_nonneg: "0 \<le> x \<Longrightarrow> 0 \<le> round_even x"
  using round_even_mono [of "of_int 0" x] by (simp only: round_even_int)

lemma of_nat_div_mod: "rat_of_nat n = of_nat (n div m) * of_nat m + of_nat (n mod m)"
  by (simp flip: of_nat_mult of_nat_add)

lemma read_fixed_fixed:
  assumes "0 \<le> x" "0 < p"
  shows "read_fixed (fixed p x) = Some (of_int (round_even (x * 10 ^ p)) / 10 ^ p)"
proof -
  let ?n = "nat (round_even (x * 10 ^ p))"
  let ?w = "decimal (?n div 10 ^ p)" and ?f = "pad p ?n"
  have tw: "takeWhile is_digit (?w @ 46 # ?f) = ?w"
    by (rule takeWhile_digits) (auto simp: decimal_digits is_digit_def [of 46])
  have f: "list_all is_digit ?f" "?f \<noteq> []" using assms(2) pad_digits by (auto simp: list_all_iff simp flip: length_greater_0_conv)
  have n: "rat_of_nat ?n = of_nat (?n div 10 ^ p) * 10 ^ p + of_nat (?n mod 10 ^ p)"
    using of_nat_div_mod [of ?n "10 ^ p"] by simp
  have "rat_of_nat (?n div 10 ^ p) + of_nat (?n mod 10 ^ p) / 10 ^ p = of_nat ?n / 10 ^ p"
    unfolding n by (simp add: add_divide_distrib)
  also have "\<dots> = of_int (round_even (x * 10 ^ p)) / 10 ^ p"
    using round_even_nonneg [of "x * 10 ^ p"] assms(1) by simp
  finally show ?thesis
    using tw f assms(2) by (simp add: read_fixed_def fixed_def Let_def)
qed

text \<open>The printed number is within half a unit of the last place.\<close>

lemma fixed_accurate:
  assumes "0 \<le> x" "0 < p"
  shows "\<exists>y. read_fixed (fixed p x) = Some y \<and> \<bar>y - x\<bar> \<le> 1 / (2 * 10 ^ p)"
proof -
  let ?y = "of_int (round_even (x * 10 ^ p)) / 10 ^ p :: rat"
  have "\<bar>?y - x\<bar> * 10 ^ p = \<bar>of_int (round_even (x * 10 ^ p)) - x * 10 ^ p\<bar>"
    by (simp add: abs_mult_pos left_diff_distrib)
  also have "\<dots> \<le> 1 / 2" by (rule round_even_error)
  finally have "\<bar>?y - x\<bar> \<le> 1 / (2 * 10 ^ p)" by (simp add: field_simps)
  with read_fixed_fixed [OF assms] show ?thesis by blast
qed


section \<open>Dates\<close>

text \<open>
  The calendar date of a day number, counted from 1 January 1970. Years are counted from March on, so that the leap
  day is the last day of its year, of its four years, and so on: days are split by 400, 100, 4 and single
  years, where the last of the four centuries and the last of the four years may be one day longer.
\<close>

definition civil :: "int \<Rightarrow> int \<times> int \<times> int" where
  "civil days =
     (let z = days + 719468;
          c400 = z div 146097; r = z mod 146097;
          c100 = min 3 (r div 36524); r = r - c100 * 36524;
          c4 = r div 1461; r = r mod 1461;
          c1 = min 3 (r div 365); r = r - c1 * 365;
          y = 400 * c400 + 100 * c100 + 4 * c4 + c1;
          mp = (5 * r + 2) div 153;
          d = r - (153 * mp + 2) div 5 + 1
      in if mp < 10 then (y, mp + 3, d) else (y + 1, mp - 9, d))"

text \<open>The calendar itself: leap years, lengths of months, and the number of a day.\<close>

definition leap :: "int \<Rightarrow> bool" where
  "leap y \<longleftrightarrow> y mod 4 = 0 \<and> (y mod 100 \<noteq> 0 \<or> y mod 400 = 0)"

definition month_days :: "int \<Rightarrow> int \<Rightarrow> int" where
  "month_days y m = (if m = 2 then (if leap y then 29 else 28) else if m = 4 \<or> m = 6 \<or> m = 9 \<or> m = 11 then 30 else 31)"

definition days_before_month :: "int \<Rightarrow> int \<Rightarrow> int" where
  "days_before_month y m = sum_list (map (month_days y) [1..m - 1])"

definition days_before_year :: "int \<Rightarrow> int" where
  "days_before_year y = 365 * (y - 1970) + ((y - 1) div 4 - (y - 1) div 100 + (y - 1) div 400) - 477"

definition day_number :: "int \<Rightarrow> int \<Rightarrow> int \<Rightarrow> int" where
  "day_number y m d = days_before_year y + days_before_month y m + d - 1"

lemma div_pred:
  assumes "(m :: int) > 0"
  shows "(y - 1) div m = y div m - (if y mod m = 0 then 1 else 0)"
proof (cases "y mod m = 0")
  case True
  then have "y - 1 = m * (y div m - 1) + (m - 1)" using mult_div_mod_eq [of m y] by (simp add: right_diff_distrib)
  then have "(y - 1) div m = y div m - 1" by (rule int_div_pos_eq) (use assms in simp_all)
  with True show ?thesis by simp
next
  case False
  have e: "y - 1 = m * (y div m) + (y mod m - 1)" using mult_div_mod_eq [of m y] by simp
  have r: "0 \<le> y mod m - 1" "y mod m - 1 < m" using False pos_mod_sign [OF assms, of y] pos_mod_bound [OF assms, of y] by linarith+
  from e r have "(y - 1) div m = y div m" by (rule int_div_pos_eq)
  with False show ?thesis by simp
qed

lemma leap_iff: "leap y \<longleftrightarrow> (if y mod 400 = 0 then True else if y mod 100 = 0 then False else y mod 4 = 0)"
proof -
  have "y mod 400 = 0 \<Longrightarrow> y mod 4 = 0" using dvd_trans [of 4 400 y] by (simp add: mod_eq_0_iff_dvd)
  then show ?thesis by (auto simp: leap_def)
qed

lemma days_before_year_Suc: "days_before_year (y + 1) = days_before_year y + (if leap y then 366 else 365)"
proof -
  have "y mod 400 = 0 \<Longrightarrow> y mod 100 = 0" "y mod 100 = 0 \<Longrightarrow> y mod 4 = 0"
    using dvd_trans [of 100 400 y] dvd_trans [of 4 100 y] by (simp_all add: mod_eq_0_iff_dvd)
  then show ?thesis by (auto simp: days_before_year_def leap_iff div_pred)
qed

lemma days_before_month_values:
  "days_before_month y 1 = 0" "days_before_month y 2 = 31" 
  "days_before_month y 3 = (if leap y then 60 else 59)" "days_before_month y 4 = (if leap y then 91 else 90)"
  "days_before_month y 5 = (if leap y then 121 else 120)" "days_before_month y 6 = (if leap y then 152 else 151)"
  "days_before_month y 7 = (if leap y then 182 else 181)" "days_before_month y 8 = (if leap y then 213 else 212)"
  "days_before_month y 9 = (if leap y then 244 else 243)" "days_before_month y 10 = (if leap y then 274 else 273)"
  "days_before_month y 11 = (if leap y then 305 else 304)" "days_before_month y 12 = (if leap y then 335 else 334)"
  by (simp_all add: days_before_month_def month_days_def upto.simps)


lemma march_month:
  assumes "0 \<le> r" "r \<le> 365" "mp = (5 * r + 2) div 153" "d = r - (153 * mp + 2) div 5 + 1"
  shows "0 \<le> mp \<and> mp \<le> 11 \<and> 1 \<le> d \<and>
    (if mp < 10 then d \<le> month_days y (mp + 3) \<and> days_before_month y (mp + 3) + d - 1 = r + (if leap y then 60 else 59)
     else (r < 365 \<or> leap y \<longrightarrow> d \<le> month_days y (mp - 9)) \<and> days_before_month y (mp - 9) + d - 1 = r - 306)"
proof -
  have b: "153 * mp \<le> 5 * r + 2" "5 * r + 2 < 153 * mp + 153" using assms(3) by presburger+
  with assms(1,2) have "0 \<le> mp" "mp \<le> 11" by linarith+
  then have "mp = 0 \<or> mp = 1 \<or> mp = 2 \<or> mp = 3 \<or> mp = 4 \<or> mp = 5 \<or> mp = 6 \<or> mp = 7 \<or> mp = 8 \<or> mp = 9 \<or> mp = 10 \<or> mp = 11"
    by presburger
  then show ?thesis
    by (elim disjE) (use b assms(1,2,4) in \<open>simp_all add: days_before_month_values month_days_def\<close>)
qed


lemma cycle_divs:
  assumes "y = 400 * a + 100 * b + 4 * e + f" "0 \<le> b" "b \<le> 3" "0 \<le> e" "e \<le> 24" "0 \<le> f" "f \<le> (3 :: int)"
  shows "y div 4 = 100 * a + 25 * b + e" "y div 100 = 4 * a + b" "y div 400 = a"
proof -
  show "y div 4 = 100 * a + 25 * b + e" by (rule int_div_pos_eq [of _ _ _ f]) (use assms in simp_all)
  show "y div 100 = 4 * a + b" by (rule int_div_pos_eq [of _ _ _ "4 * e + f"]) (use assms in simp_all)
  show "y div 400 = a" by (rule int_div_pos_eq [of _ _ _ "100 * b + 4 * e + f"]) (use assms in simp_all)
qed

lemma div_bounds: "0 < k \<Longrightarrow> k * (x div k) \<le> x \<and> x < k * (x div k) + (k :: int)"
  using mult_div_mod_eq [of k x] pos_mod_sign [of k x] pos_mod_bound [of k x] by linarith

text \<open>The year that begins in March and the day in it.\<close>

lemma march_year:
  assumes "z = 146097 * a + r0" "0 \<le> r0" "r0 < 146097" "b = min 3 (r0 div 36524)" "r1 = r0 - b * 36524"
    and "e = r1 div 1461" "r2 = r1 mod 1461" "f = min 3 (r2 div 365)" "r = r2 - f * 365" "y = 400 * a + 100 * b + 4 * e + (f :: int)"
  shows "0 \<le> r" "r \<le> 365" "r = 365 \<Longrightarrow> leap (y + 1)" "days_before_year (y + 1) + r = z - 719162"
proof -
  have b: "0 \<le> b" "b \<le> 3" "0 \<le> r1" "r1 \<le> 36524" "b < 3 \<Longrightarrow> r1 < 36524"
    using div_bounds [of 36524 r0] assms(2-5) by (auto simp: min_def split: if_splits)
  have e: "r1 = 1461 * e + r2" "0 \<le> r2" "r2 < 1461" using assms(6,7) by simp_all
  have e': "0 \<le> e" "e \<le> 24" using b(3,4) e by linarith+
  have f: "0 \<le> f" "f \<le> 3" "0 \<le> r" "r \<le> 365" "r = 365 \<Longrightarrow> f = 3" 
    using div_bounds [of 365 r2] e(2,3) assms(8,9) by (auto simp: min_def split: if_splits)
  show "0 \<le> r" "r \<le> 365" using f by simp_all
  note dv = cycle_divs [OF assms(10) b(1,2) e' f(1,2)]
  show "leap (y + 1)" if "r = 365"
  proof -
    have f3: "f = 3" "r2 = 1460" using f(5) that assms(9) by simp_all
    show ?thesis
    proof (cases "e < 24")
      case True
      then have "(y + 1) div 100 = 4 * a + b" using f3 assms(10) e'(1)
        by (intro int_div_pos_eq [of _ _ _ "4 * e + 4"]) simp_all
      then have "(y + 1) mod 100 = 4 * e + 4" using mult_div_mod_eq [of 100 "y + 1"] f3 assms(10) by linarith
      then have n: "(y + 1) mod 100 \<noteq> 0" using e'(1) by linarith
      have "y + 1 = 4 * (100 * a + 25 * b + e + 1)" using f3 assms(10) by simp
      then have "(y + 1) mod 4 = 0" by simp
      with n show ?thesis by (simp add: leap_def)
    next
      case False
      then have "e = 24" "b = 3" using b e e' f3 by linarith+
      then have "y + 1 = 400 * (a + 1)" using f3 assms(10) by simp
      then have "(y + 1) mod 400 = 0" by simp
      then show ?thesis by (simp add: leap_iff)
    qed
  qed
  have "days_before_year (y + 1) = 365 * (y + 1 - 1970) + (100 * a + 25 * b + e - (4 * a + b) + a) - 477"
    by (simp add: days_before_year_def dv)
  then show "days_before_year (y + 1) + r = z - 719162" unfolding assms(1,10) using assms(5,9) e(1) by simp
qed

text \<open>The date of a day is a date of the calendar, and its day number is that day.\<close>

lemma civil_correct:
  assumes "civil n = (y, m, d)"
  shows "1 \<le> m" "m \<le> 12" "1 \<le> d" "d \<le> month_days y m" "day_number y m d = n"
proof -
  define z where "z = n + 719468"
  define a r0 where "a = z div 146097" and "r0 = z mod 146097"
  define b r1 where "b = min 3 (r0 div 36524)" and "r1 = r0 - b * 36524"
  define e r2 where "e = r1 div 1461" and "r2 = r1 mod 1461"
  define f r where "f = min 3 (r2 div 365)" and "r = r2 - f * 365"
  define y' mp where "y' = 400 * a + 100 * b + 4 * e + f" and "mp = (5 * r + 2) div 153"
  define d' where "d' = r - (153 * mp + 2) div 5 + 1"
  have z: "z = 146097 * a + r0" "0 \<le> r0" "r0 < 146097" by (simp_all add: a_def r0_def)
  note my = march_year [OF z b_def r1_def e_def r2_def f_def r_def y'_def]
  note mm = march_month [OF my(1,2) mp_def d'_def]
  have c: "civil n = (if mp < 10 then (y', mp + 3, d') else (y' + 1, mp - 9, d'))"
    unfolding civil_def Let_def z_def [symmetric] a_def [symmetric] r0_def [symmetric] b_def [symmetric] r1_def [symmetric]
      e_def [symmetric] r2_def [symmetric] f_def [symmetric] r_def [symmetric] y'_def [symmetric] mp_def [symmetric] d'_def [symmetric] ..
  have "1 \<le> m \<and> m \<le> 12 \<and> 1 \<le> d \<and> d \<le> month_days y m \<and> day_number y m d = n"
  proof (cases "mp < 10")
    case True
    with c assms have "y = y'" "m = mp + 3" "d = d'" by simp_all
    moreover have "day_number y' (mp + 3) d' = n"
      using mm [of y'] True my(4) days_before_year_Suc [of y'] by (auto simp: day_number_def z_def split: if_splits)
    ultimately show ?thesis using mm [of y'] True by simp
  next
    case False
    with c assms have "y = y' + 1" "m = mp - 9" "d = d'" by simp_all
    moreover have "r < 365 \<or> leap (y' + 1)" using my(2,3) by linarith
    ultimately show ?thesis using mm [of "y' + 1"] False my(4) by (simp add: day_number_def z_def)
  qed
  then show "1 \<le> m" "m \<le> 12" "1 \<le> d" "d \<le> month_days y m" "day_number y m d = n" by simp_all
qed

text \<open>\<open>t.UTC().Format(time.RFC3339)\<close>. A year has at least four digits.\<close>

definition year_text :: "int \<Rightarrow> bytes" where
  "year_text y = (if y < 0 then [45] else []) @ (if nat \<bar>y\<bar> < 10000 then pad 4 (nat \<bar>y\<bar>) else decimal (nat \<bar>y\<bar>))"

definition rfc3339 :: "gotime \<Rightarrow> bytes" where
  "rfc3339 t =
     (let sec = wall t div Second; day = sec div 86400; s = sec mod 86400; (y, m, d) = civil day
      in year_text y @ 45 # pad 2 (nat m) @ 45 # pad 2 (nat d) @ 84 # pad 2 (nat (s div 3600)) @ 58 # pad 2 (nat (s div 60 mod 60))
         @ 58 # pad 2 (nat (s mod 60)) @ [90])"

text \<open>Reading a text of 20 bytes back into seconds.\<close>

definition read_rfc3339 :: "bytes \<Rightarrow> int option" where
  "read_rfc3339 b =
     (let num = (\<lambda>i k. int (digits_value (take k (drop i b))))
      in if length b = 20 \<and> b ! 4 = 45 \<and> b ! 7 = 45 \<and> b ! 10 = 84 \<and> b ! 13 = 58 \<and> b ! 16 = 58 \<and> b ! 19 = 90
         then Some (day_number (num 0 4) (num 5 2) (num 8 2) * 86400 + num 11 2 * 3600 + num 14 2 * 60 + num 17 2)
         else None)"


lemma days_before_year_mono: "y \<le> y' \<Longrightarrow> days_before_year y \<le> days_before_year y'"
proof (induction rule: int_ge_induct)
  case (step y')
  then show ?case using days_before_year_Suc [of y'] by (auto split: if_splits)
qed simp

lemma day_in_year:
  assumes "1 \<le> m" "m \<le> 12" "1 \<le> d" "d \<le> month_days y m"
  shows "days_before_year y \<le> day_number y m d" "day_number y m d < days_before_year (y + 1)"
proof -
  have "m = 1 \<or> m = 2 \<or> m = 3 \<or> m = 4 \<or> m = 5 \<or> m = 6 \<or> m = 7 \<or> m = 8 \<or> m = 9 \<or> m = 10 \<or> m = 11 \<or> m = 12"
    using assms(1,2) by presburger
  then have "0 \<le> days_before_month y m \<and> days_before_month y m + month_days y m \<le> (if leap y then 366 else 365)"
    by (elim disjE) (simp_all add: days_before_month_values month_days_def)
  with assms(3,4) show "days_before_year y \<le> day_number y m d" "day_number y m d < days_before_year (y + 1)"
    by (simp_all add: day_number_def days_before_year_Suc)
qed

lemma civil_year:
  assumes "civil n = (y, m, d)" "days_before_year lo \<le> n" "n < days_before_year hi"
  shows "lo \<le> y" "y < hi"
proof -
  note c = civil_correct [OF assms(1)]
  note y = day_in_year [OF c(1-4), unfolded c(5)]
  show "lo \<le> y" using y(2) assms(2) days_before_year_mono [of "y + 1" lo] by linarith
  show "y < hi" using y(1) assms(3) days_before_year_mono [of hi y] by linarith
qed

lemma read_fields:
  assumes "length A = 4" "length B = 2" "length C = 2" "length D = 2" "length E = 2" "length F = 2"
    and "b = A @ 45 # B @ 45 # C @ 84 # D @ 58 # E @ 58 # F @ [90]"
  shows "read_rfc3339 b = Some (day_number (int (digits_value A)) (int (digits_value B)) (int (digits_value C)) * 86400
    + int (digits_value D) * 3600 + int (digits_value E) * 60 + int (digits_value F))"
proof -
  have "length b = 20" "b ! 4 = 45" "b ! 7 = 45" "b ! 10 = 84" "b ! 13 = 58" "b ! 16 = 58" "b ! 19 = 90"
    using assms by (simp_all add: nth_append)
  moreover have "take 4 (drop 0 b) = A" "take 2 (drop 5 b) = B" "take 2 (drop 8 b) = C" "take 2 (drop 11 b) = D"
    "take 2 (drop 14 b) = E" "take 2 (drop 17 b) = F" using assms by simp_all
  ultimately show ?thesis by (simp only: read_rfc3339_def Let_def) simp
qed

text \<open>The text of an instant in the years 0 to 9999 has 20 bytes and reads back as its second.\<close>

lemma rfc3339_read:
  assumes "days_before_year 0 * 86400 \<le> wall t div Second" "wall t div Second < days_before_year 10000 * 86400"
  shows "length (rfc3339 t) = 20" "read_rfc3339 (rfc3339 t) = Some (wall t div Second)"
proof -
  define sec where "sec = wall t div Second"
  define s where "s = sec mod 86400"
  obtain y m d where c: "civil (sec div 86400) = (y, m, d)" by (metis prod_cases3)
  have day: "days_before_year 0 \<le> sec div 86400" "sec div 86400 < days_before_year 10000"
    using assms div_bounds [of 86400 sec] unfolding sec_def [symmetric] by linarith+
  note yr = civil_year [OF c day] and cc = civil_correct [OF c]
  have s: "0 \<le> s" "s < 86400" by (simp_all add: s_def)
  have md: "d \<le> 31" using cc(4) by (simp add: month_days_def split: if_splits)
  define Y M D h mi se where "Y = nat y" and "M = nat m" and "D = nat d" and "h = nat (s div 3600)" and "mi = nat (s div 60 mod 60)" and "se = nat (s mod 60)"
  note defs = this
  have lt: "Y < 10000" "M < 100" "D < 100" "h < 100" "mi < 100" "se < 100"
    using yr cc md s by (auto simp: defs nat_less_iff zdiv_zmult2_eq) 
  have tx: "rfc3339 t = pad 4 Y @ 45 # pad 2 M @ 45 # pad 2 D @ 84 # pad 2 h @ 58 # pad 2 mi @ 58 # pad 2 se @ [90]"
    using yr lt(1) by (simp add: rfc3339_def sec_def [symmetric] c s_def [symmetric] year_text_def defs Let_def)
  show "length (rfc3339 t) = 20" by (simp add: tx)
  have "s = s div 3600 * 3600 + s div 60 mod 60 * 60 + s mod 60"
  proof -
    have "s div 3600 = s div 60 div 60" using zdiv_zmult2_eq [of 60 s 60] by simp
    then show ?thesis using div_mult_mod_eq [of "s div 60" 60] div_mult_mod_eq [of s 60] by linarith
  qed
  moreover have "sec = sec div 86400 * 86400 + s" by (simp add: s_def)
  ultimately have "sec = day_number y m d * 86400 + s div 3600 * 3600 + s div 60 mod 60 * 60 + s mod 60" using cc(5) by simp
  moreover have "int Y = y" "int M = m" "int D = d" "int h = s div 3600" "int mi = s div 60 mod 60" "int se = s mod 60"
    using yr cc s by (simp_all add: defs pos_imp_zdiv_nonneg_iff)
  moreover have "read_rfc3339 (rfc3339 t) = Some (day_number (int Y) (int M) (int D) * 86400 + int h * 3600 + int mi * 60 + int se)"
    using lt by (subst read_fields [OF _ _ _ _ _ _ tx]) simp_all
  ultimately show "read_rfc3339 (rfc3339 t) = Some (wall t div Second)" unfolding sec_def [symmetric] by simp
qed

end
