(* ===== verification/Presentation.thy ===== *)
theory Presentation
  imports Attester Go_Format
begin

text \<open>
  What the attester prints (\<open>report\<close>, \<open>render\<close> and their helpers in \<open>cmd/attester/main.go\<close>). A JSON document is
  the tree that \<open>encoding/json\<close> builds from the struct, with its member names, their order and \<open>omitempty\<close>;
  the digits of its numbers and the escapes of its strings are left to that package. The text form is given byte
  by byte. The text of an error other than a timeout is a parameter.
\<close>

section \<open>JSON documents\<close>

datatype json =
    JString bytes
  | JUint nat
  | JFloat rat
  | JBits float64
  | JBool bool
  | JArray "json list"
  | JObject "(string \<times> json) list"

text \<open>\<open>json.Marshal\<close> refuses infinities and NaN.\<close>

definition json_view :: "offsetView \<Rightarrow> json option" where
  "json_view v =
     (if f64_finite (ov_Lat v) \<and> f64_finite (ov_Lon v) then
        Some (JObject [(''authority'', JString (ov_Authority v)), (''sender'', JString (ov_Sender v)),
          (''lat'', JBits (ov_Lat v)), (''lon'', JBits (ov_Lon v)), (''rtt_ns'', JUint (unat (ov_RttNs v))), (''valid'', JBool (ov_Valid v))])
      else None)"

fun json_views :: "offsetView list \<Rightarrow> json list option" where
  "json_views [] = Some []"
| "json_views (v # vs) =
     (case (json_view v, json_views vs) of (Some j, Some js) \<Rightarrow> Some (j # js) | _ \<Rightarrow> None)"

text \<open>An optional string member.\<close>

definition omitempty :: "string \<Rightarrow> bytes \<Rightarrow> (string \<times> json) list" where
  "omitempty name b = (if b = [] then [] else [(name, JString b)])"

definition observed_text :: "gotime option \<Rightarrow> bytes" where
  "observed_text ot = (case ot of None \<Rightarrow> [] | Some t \<Rightarrow> rfc3339 t)"

definition now_text :: "gotime \<Rightarrow> bytes" where
  "now_text t = rfc3339 t"

definition json_members :: "observation \<Rightarrow> bytes \<Rightarrow> json list \<Rightarrow> (string \<times> json) list" where
  "json_members obs err views =
     [(''seq'', JUint (unat (ob_Seq obs))), (''timestamp'', JString (now_text (Timestamp obs))),
      (''anchor_key'', JString (AnchorKey obs)), (''attester_key'', JString (AttesterKey obs)),
      (''anchor_measured_rtt_ns'', JUint (unat (AnchorMeasuredRttNs obs))),
      (''anchor_measured_rtt_s'', JFloat (AnchorMeasuredRttS obs)),
      (''attester_measured_rtt_ns'', JUint (unat (AttesterMeasuredRttNs obs))), (''challenged'', JBool (ob_Challenged obs)),
      (''lat'', JBits (ob_Lat obs)), (''lon'', JBits (ob_Lon obs)),
      (''provable_max_distance_m'', JFloat (ProvableMaxDistanceM obs)),
      (''calibrated_distance_m'', JFloat (CalibratedDistanceM obs))]
     @ omitempty ''observed_at'' (observed_text (ob_ObservedAt obs))
     @ [(''reply0_valid'', JBool (Reply0Valid obs)), (''reply1_valid'', JBool (Reply1Valid obs)),
        (''anchor_key_match'', JBool (AnchorKeyMatch obs))]
     @ omitempty ''reply0_raw'' (Reply0Raw obs) @ omitempty ''reply1_raw'' (Reply1Raw obs)
     @ (if views = [] then [] else [(''offsets'', JArray views)])
     @ omitempty ''error'' err"

definition json_observation :: "observation \<Rightarrow> bytes \<Rightarrow> json option" where
  "json_observation obs err =
     (case json_views (ob_Offsets obs) of
        None \<Rightarrow> None
      | Some views \<Rightarrow>
          if f64_finite (ob_Lat obs) \<and> f64_finite (ob_Lon obs) then Some (JObject (json_members obs err views)) else None)"

section \<open>Text\<close>

definition ms :: "uint64 \<Rightarrow> bytes" where
  "ms ns = fixed 3 (rnd (rnd (of_nat (unat ns)) / 1000000)) @ ascii '' ms''"

definition f64_neg :: "float64 \<Rightarrow> float64" where
  "f64_neg b = b + 0x8000000000000000"

text \<open>The degree sign is two bytes of UTF-8.\<close>

definition coord :: "float64 \<Rightarrow> float64 \<Rightarrow> bytes" where
  "coord lat lon =
     (let (lat, ns) = (if f64_less lat f64_0 then (f64_neg lat, ''S'') else (lat, ''N''));
          (lon, ew) = (if f64_less lon f64_0 then (f64_neg lon, ''W'') else (lon, ''E''))
      in fixed_f64 4 lat @ [0xC2, 0xB0] @ ascii ns @ ascii '', '' @ fixed_f64 4 lon @ [0xC2, 0xB0] @ ascii ew)"

definition valid :: "bool \<Rightarrow> bytes" where
  "valid v = ascii (if v then ''valid'' else ''INVALID'')"

definition bool_text :: "bool \<Rightarrow> bytes" where
  "bool_text v = ascii (if v then ''true'' else ''false'')"

text \<open>A line: 10 is the newline.\<close>

definition line :: "string \<Rightarrow> bytes \<Rightarrow> string \<Rightarrow> bytes" where
  "line l b r = ascii l @ b @ ascii r @ [10]"

fun render_offsets :: "nat \<Rightarrow> offsetView list \<Rightarrow> bytes" where
  "render_offsets i [] = []"
| "render_offsets i (v # vs) =
     [10] @ line ''  anchor offset ['' (decimal (i + 1)) '']''
     @ line ''    authority: '' (ov_Authority v) ''''
     @ line ''    position:  '' (coord (ov_Lat v) (ov_Lon v)) ''''
     @ line ''    signature: '' (valid (ov_Valid v)) ''''
     @ render_offsets (i + 1) vs"

definition render :: "observation \<Rightarrow> bytes \<Rightarrow> bytes" where
  "render obs err =
     [10] @ ascii ''['' @ now_text (Timestamp obs) @ line ''] pair #'' (decimal (unat (ob_Seq obs))) '''' @
     (if err \<noteq> [] then line ''  error: '' err '''' @ [10]
      else
        line ''  anchor-measured RTT:   '' (ms (AnchorMeasuredRttNs obs)) ''''
        @ line ''  attester-measured RTT: '' (ms (AttesterMeasuredRttNs obs)) ''''
        @ line ''  challenged:            '' (bool_text (ob_Challenged obs)) ''''
        @ (if \<not> ob_Challenged obs then line ''    (unchallenged: no proof this host waited for reply 0)'' [] '''' else [])
        @ line ''  anchor position:       '' (coord (ob_Lat obs) (ob_Lon obs)) ''''
        @ line ''  provable bound:        within '' (fixed 1 (rnd (ProvableMaxDistanceM obs / 1000))) '' km''
        @ line ''  calibrated estimate:   '' (fixed 1 (rnd (CalibratedDistanceM obs / 1000))) '' km''
        @ (if observed_text (ob_ObservedAt obs) \<noteq> [] then line ''  anchor observed at:    '' (observed_text (ob_ObservedAt obs)) '''' else [])
        @ line ''  signatures:            reply0=''
            (valid (Reply0Valid obs) @ ascii '' reply1='' @ valid (Reply1Valid obs) @ ascii '' anchor-key='' @ valid (AnchorKeyMatch obs)) ''''
        @ render_offsets 0 (ob_Offsets obs) @ [10])"

section \<open>Reports\<close>

text \<open>The observation of a failed pair has only the number, the time and the error.\<close>

definition error_observation :: "uint32 \<Rightarrow> gotime \<Rightarrow> observation" where
  "error_observation sq t =
     \<lparr>ob_Seq = sq, Timestamp = t, AnchorKey = [], AttesterKey = [], AnchorMeasuredRttNs = 0, AnchorMeasuredRttS = 0,
      AttesterMeasuredRttNs = 0, ob_Challenged = False, ob_Lat = 0, ob_Lon = 0, ProvableMaxDistanceM = 0, CalibratedDistanceM = 0,
      ob_ObservedAt = None, Reply0Valid = False, Reply1Valid = False, AnchorKeyMatch = False, Reply0Raw = [], Reply1Raw = [],
      ob_Offsets = []\<rparr>"

fun error_text :: "(send_error \<Rightarrow> bytes) \<Rightarrow> pair_error \<Rightarrow> bytes" where
  "error_text et TimedOut = ascii ''timeout''"
| "error_text et (PairError e) = et e"

fun reported :: "(send_error \<Rightarrow> bytes) \<Rightarrow> report \<Rightarrow> observation \<times> bytes" where
  "reported et (Observed obs) = (obs, [])"
| "reported et (Errored sq t e) = (error_observation sq t, error_text et e)"

text \<open>What one report puts on standard output; \<open>Logged\<close> is the case that only an error is logged.\<close>

datatype printed = Line json | Text bytes | Logged

definition print_report :: "(send_error \<Rightarrow> bytes) \<Rightarrow> attester_flags \<Rightarrow> report \<Rightarrow> printed" where
  "print_report et fl rep =
     (case reported et rep of (obs, err) \<Rightarrow>
        if jsonOut fl then (case json_observation obs err of Some j \<Rightarrow> Line j | None \<Rightarrow> Logged)
        else Text (render obs err))"

text \<open>Reading a member of a document.\<close>

fun member :: "string \<Rightarrow> json \<Rightarrow> json option" where
  "member name (JObject flds) = map_of flds name"
| "member name _ = None"

section \<open>Basic facts\<close>

lemma json_views_Some:
  "json_views vs \<noteq> None \<longleftrightarrow> (\<forall>v \<in> set vs. f64_finite (ov_Lat v) \<and> f64_finite (ov_Lon v))"
  by (induction vs) (auto simp: json_view_def split: option.splits)

lemma json_observation_None:
  "json_observation obs err = None \<longleftrightarrow> \<not> f64_finite (ob_Lat obs) \<or> \<not> f64_finite (ob_Lon obs)
     \<or> (\<exists>v \<in> set (ob_Offsets obs). \<not> f64_finite (ov_Lat v) \<or> \<not> f64_finite (ov_Lon v))"
  using json_views_Some [of "ob_Offsets obs"] by (auto simp: json_observation_def split: option.splits)

lemma map_of_omitempty: "map_of (omitempty name b) k = (if k = name \<and> b \<noteq> [] then Some (JString b) else None)"
  by (simp add: omitempty_def)

lemma json_lookup:
  assumes "json_observation obs err = Some j"
  shows "member ''seq'' j = Some (JUint (unat (ob_Seq obs)))" "member ''timestamp'' j = Some (JString (now_text (Timestamp obs)))"
    "member ''anchor_key'' j = Some (JString (AnchorKey obs))" "member ''attester_key'' j = Some (JString (AttesterKey obs))"
    "member ''anchor_measured_rtt_ns'' j = Some (JUint (unat (AnchorMeasuredRttNs obs)))"
    "member ''challenged'' j = Some (JBool (ob_Challenged obs))" "member ''lat'' j = Some (JBits (ob_Lat obs))"
    "member ''lon'' j = Some (JBits (ob_Lon obs))" "member ''provable_max_distance_m'' j = Some (JFloat (ProvableMaxDistanceM obs))"
    "member ''reply1_valid'' j = Some (JBool (Reply1Valid obs))" "member ''anchor_key_match'' j = Some (JBool (AnchorKeyMatch obs))"
    "member ''reply1_raw'' j = (if Reply1Raw obs = [] then None else Some (JString (Reply1Raw obs)))"
    "member ''observed_at'' j = (if observed_text (ob_ObservedAt obs) = [] then None else Some (JString (observed_text (ob_ObservedAt obs))))"
    "member ''error'' j = (if err = [] then None else Some (JString err))"
  using assms by (auto simp: json_observation_def json_members_def map_add_def map_of_omitempty split: option.splits if_splits)

section \<open>The schema\<close>

text \<open>The JSON types of members; \<open>True\<close> marks a member that may be absent.\<close>

datatype jtype = TString | TUint | TFloat | TBool | TArray "(string \<times> jtype \<times> bool) list"

fun conforms :: "(string \<times> jtype \<times> bool) list \<Rightarrow> (string \<times> json) list \<Rightarrow> bool"
  and has_type :: "jtype \<Rightarrow> json \<Rightarrow> bool"
  and all_conform :: "(string \<times> jtype \<times> bool) list \<Rightarrow> json list \<Rightarrow> bool" where
  "conforms [] flds = (flds = [])"
| "conforms ((name, ty, opt) # sch) flds =
     (case flds of
        [] \<Rightarrow> opt \<and> conforms sch []
      | (n, j) # rest \<Rightarrow> if n = name then has_type ty j \<and> conforms sch rest else opt \<and> conforms sch flds)"
| "has_type TString j = (case j of JString _ \<Rightarrow> True | _ \<Rightarrow> False)"
| "has_type TUint j = (case j of JUint n \<Rightarrow> n < 2 ^ 64 | _ \<Rightarrow> False)"
| "has_type TFloat j = (case j of JFloat _ \<Rightarrow> True | JBits b \<Rightarrow> f64_finite b | _ \<Rightarrow> False)"
| "has_type TBool j = (case j of JBool _ \<Rightarrow> True | _ \<Rightarrow> False)"
| "has_type (TArray sch) j = (case j of JArray js \<Rightarrow> js \<noteq> [] \<and> all_conform sch js | _ \<Rightarrow> False)"
| "all_conform sch [] = True"
| "all_conform sch (j # js) = ((case j of JObject flds \<Rightarrow> conforms sch flds | _ \<Rightarrow> False) \<and> all_conform sch js)"

definition offset_schema :: "(string \<times> jtype \<times> bool) list" where
  "offset_schema = [(''authority'', TString, False), (''sender'', TString, False), (''lat'', TFloat, False), (''lon'', TFloat, False),
     (''rtt_ns'', TUint, False), (''valid'', TBool, False)]"

definition observation_schema :: "(string \<times> jtype \<times> bool) list" where
  "observation_schema = [(''seq'', TUint, False), (''timestamp'', TString, False), (''anchor_key'', TString, False),
     (''attester_key'', TString, False), (''anchor_measured_rtt_ns'', TUint, False), (''anchor_measured_rtt_s'', TFloat, False),
     (''attester_measured_rtt_ns'', TUint, False), (''challenged'', TBool, False), (''lat'', TFloat, False), (''lon'', TFloat, False),
     (''provable_max_distance_m'', TFloat, False), (''calibrated_distance_m'', TFloat, False), (''observed_at'', TString, True),
     (''reply0_valid'', TBool, False), (''reply1_valid'', TBool, False), (''anchor_key_match'', TBool, False),
     (''reply0_raw'', TString, True), (''reply1_raw'', TString, True), (''offsets'', TArray offset_schema, True), (''error'', TString, True)]"

section \<open>Lemmas on documents and text\<close>

lemma json_views_conform: "json_views vs = Some js \<Longrightarrow> all_conform offset_schema js \<and> (js = [] \<longleftrightarrow> vs = [])"
proof (induction vs arbitrary: js)
  case (Cons v vs)
  then obtain j js' where j: "json_view v = Some j" "json_views vs = Some js'" "js = j # js'"
    by (auto split: option.splits)
  have "unat (ov_RttNs v) < 2 ^ 64" using unsigned_less [of "ov_RttNs v", where 'a = nat] by simp
  with j(1) have "case j of JObject flds \<Rightarrow> conforms offset_schema flds | _ \<Rightarrow> False"
    by (auto simp: json_view_def offset_schema_def split: if_splits)
  with Cons.IH [OF j(2)] j(3) show ?case by simp
qed simp

lemma conforms_optional:
  assumes "fst ` set rest \<inter> {n} = {}" "\<forall>j. opt = [(n, j)] \<longrightarrow> has_type ty j" "opt = [] \<or> (\<exists>j. opt = [(n, j)])"
  shows "conforms ((n, ty, True) # sch) (opt @ rest) = conforms sch rest"
  using assms by (cases rest) auto

lemma conforms_omitempty:
  "n \<notin> fst ` set rest \<Longrightarrow> conforms ((n, TString, True) # sch) (omitempty n b @ rest) = conforms sch rest"
  by (rule conforms_optional) (auto simp: omitempty_def)

lemma conforms_omitempty_end: "conforms [(n, TString, True)] (omitempty n b) = True"
  using conforms_omitempty [of n "[]" "[]" b] by simp

lemma conforms_member: "has_type ty j \<Longrightarrow> conforms ((n, ty, opt) # sch) ((n, j) # rest) = conforms sch rest"
  by simp

lemma names_omitempty: "fst ` set (omitempty n b) = (if b = [] then {} else {n})"
  by (simp add: omitempty_def)

lemma conforms_views:
  assumes "all_conform sch' views" "n \<notin> fst ` set rest"
  shows "conforms ((n, TArray sch', True) # sch) ((if views = [] then [] else [(n, JArray views)]) @ rest) = conforms sch rest"
  by (rule conforms_optional) (use assms in auto)

lemma error_text_ne: "\<forall>e. et e \<noteq> [] \<Longrightarrow> error_text et x \<noteq> []"
  by (cases x) (auto simp: ascii_def)

lemma members_conform:
  assumes "all_conform offset_schema views" "f64_finite (ob_Lat obs)" "f64_finite (ob_Lon obs)"
  shows "conforms observation_schema (json_members obs err views)"
proof -
  have u: "unat (x :: uint64) < 2 ^ 64" "unat (y :: uint32) < 2 ^ 64" for x y
    using unsigned_less [of x, where 'a = nat] unsigned_less [of y, where 'a = nat] by simp_all
  show ?thesis
    using assms u
    by (simp add: json_members_def observation_schema_def conforms_member conforms_omitempty conforms_views conforms_omitempty_end
        names_omitempty image_Un del: conforms.simps)
qed

lemma observe_times:
  assumes "observe c fl now sq res pk pub = Ok obs"
  shows "Timestamp obs = now" "ob_ObservedAt obs = (if MeasurementSlot (Reply1 res) > 0 then Some (time_Unix 0 (sint (MeasurementSlot (Reply1 res)))) else None)"
    "ob_Lat obs = Lat (Reply1 res)" "ob_Lon obs = Lng (Reply1 res)" "view_offsets c (Offsets (Reply1 res)) = Ok (ob_Offsets obs)"
  using assms by (auto simp: observe_def Let_def bind_r_eq_Ok)

lemma f64_finite_0 [simp]: "f64_finite 0"
  by (simp add: f64_finite_def f64_exponent_def)

lemma view_offset_coords:
  "view_offset c b = Ok v \<Longrightarrow> \<not> (f64_finite (ov_Lat v) \<and> f64_finite (ov_Lon v)) \<longleftrightarrow>
     (\<exists>lo. Unmarshal b = Ok lo \<and> \<not> (f64_finite (o_Lat lo) \<and> f64_finite (o_Lng lo)))"
  by (cases "Unmarshal b") (auto simp: view_offset_def)

lemma view_offsets_coords:
  "view_offsets c bs = Ok vs \<Longrightarrow> (\<exists>v \<in> set vs. \<not> (f64_finite (ov_Lat v) \<and> f64_finite (ov_Lon v))) \<longleftrightarrow>
     (\<exists>b \<in> set bs. \<exists>lo. Unmarshal b = Ok lo \<and> \<not> (f64_finite (o_Lat lo) \<and> f64_finite (o_Lng lo)))"
proof (induction bs arbitrary: vs)
  case (Cons b bs)
  then obtain v vs' where "view_offset c b = Ok v" "view_offsets c bs = Ok vs'" "vs = v # vs'" by (auto simp: bind_r_eq_Ok)
  with Cons.IH view_offset_coords [of c b v] show ?case by auto
qed simp

lemma print_Logged:
  "jsonOut fl \<Longrightarrow> print_report et fl rep = Logged \<longleftrightarrow> json_observation (fst (reported et rep)) (snd (reported et rep)) = None"
  by (simp add: print_report_def split: option.splits prod.splits)

lemma rfc3339_ne [simp]: "rfc3339 t \<noteq> []"
  by (simp add: rfc3339_def Let_def split: prod.splits)

lemma days_before_year_values: "days_before_year 0 = - 719528" "days_before_year 10000 = 2932897"
  by (simp_all add: days_before_year_def)

lemma render_bound_line:
  obtains pre post where "render obs [] = pre @ line ''  provable bound:        within '' (fixed 1 (rnd (ProvableMaxDistanceM obs / 1000))) '' km'' @ post"
proof -
  let ?pre = "[10] @ ascii ''['' @ now_text (Timestamp obs) @ line ''] pair #'' (decimal (unat (ob_Seq obs))) ''''
        @ line ''  anchor-measured RTT:   '' (ms (AnchorMeasuredRttNs obs)) ''''
        @ line ''  attester-measured RTT: '' (ms (AttesterMeasuredRttNs obs)) ''''
        @ line ''  challenged:            '' (bool_text (ob_Challenged obs)) ''''
        @ (if \<not> ob_Challenged obs then line ''    (unchallenged: no proof this host waited for reply 0)'' [] '''' else [])
        @ line ''  anchor position:       '' (coord (ob_Lat obs) (ob_Lon obs)) ''''"
  show thesis by (rule that [of ?pre]) (simp add: render_def)
qed

section \<open>Samples\<close>

text \<open>Some text for errors.\<close>

definition sample_error_text :: "send_error \<Rightarrow> bytes" where
  "sample_error_text e = ascii ''recvmsg''"

lemma sample_error_text_ne: "\<forall>e. sample_error_text e \<noteq> []"
  by (simp add: sample_error_text_def ascii_def)

lemma sample_flags_json: "jsonOut sample_attester_flags" "raw sample_attester_flags"
  by (simp_all add: sample_attester_flags_def)

text \<open>A pair whose second reply has the position NaN.\<close>

definition nan_pair :: ProbePairResult where
  "nan_pair = \<lparr>RTT0 = 1500, RTT1 = 1500, Reply0 = sample_reply, Reply1 = sample_reply\<lparr>Lat := 0x7FF8000000000000\<rparr>\<rparr>"

lemma nan_pair_wf: "wf_reply (Reply0 nan_pair)" "wf_reply (Reply1 nan_pair)"
  using wf_sample_reply by (simp_all add: nan_pair_def wf_reply_def)

lemma sample_line:
  obtains t s' obs j where
    "measure_pair toy_ed25519 sample_attester_flags t 1 (remotePubkey sample_sender) (zeros 32) sample_sender = (s', Report (Observed obs))"
    "print_report sample_error_text sample_attester_flags (Observed obs) = Line j" "member ''error'' j = None"
proof -
  obtain t s' obs where m: "measure_pair toy_ed25519 sample_attester_flags t 1 (remotePubkey sample_sender) (zeros 32) sample_sender = (s', Report (Observed obs))"
    and o: "ob_Lat obs = 0" "ob_Lon obs = 0" "ob_Offsets obs = []"
    by (rule sample_measure) blast
  obtain j where j: "json_observation obs [] = Some j"
    using o by (cases "json_observation obs []") (auto simp: json_observation_None)
  then have "print_report sample_error_text sample_attester_flags (Observed obs) = Line j"
    by (simp add: print_report_def sample_flags_json)
  with m json_lookup(14) [OF j] show thesis by (intro that) simp_all
qed

lemma sample_sender_ok: "signer_ok toy_ed25519 (signer sample_sender)"
  by (simp add: sample_sender_def toy_signer_ok)

text \<open>A pair with a finite position, without and with offsets.\<close>

definition plain_pair :: ProbePairResult where
  "plain_pair = \<lparr>RTT0 = 1500, RTT1 = 1500, Reply0 = sample_reply, Reply1 = sample_reply\<lparr>Lat := 0, Lng := 0, Offsets := [], RttNs := 200,
     MeasurementSlot := 1700000000000000000\<rparr>\<rparr>"

lemma plain_pair_wf: "wf_reply (Reply0 plain_pair)" "wf_reply (Reply1 plain_pair)"
  using wf_sample_reply by (simp_all add: plain_pair_def wf_reply_def wf_offsets_def)

section \<open>Properties\<close>

text \<open>
  C38 (\<open>json_schema\<close>). Every document printed with \<open>-json\<close> is an object of one fixed shape: its members come
  in the order of the struct, none twice, each with its JSON type, unsigned members below \<open>2 ^ 64\<close>
  and all numbers finite; only \<open>observed_at\<close>, the raw replies, \<open>offsets\<close> and \<open>error\<close> may be absent; and \<open>error\<close>
  is present exactly for a pair that failed.
\<close>

theorem json_schema:
  assumes "print_report et fl rep = Line j" "\<forall>e. et e \<noteq> []"
  shows "(\<exists>flds. j = JObject flds \<and> conforms observation_schema flds)
    \<and> (member ''error'' j \<noteq> None \<longleftrightarrow> (\<exists>sq t e. rep = Errored sq t e))"
proof -
  obtain obs err where r: "reported et rep = (obs, err)" by fastforce
  have j: "json_observation obs err = Some j" using assms(1) r by (auto simp: print_report_def split: if_splits option.splits)
  then have "\<exists>flds. j = JObject flds \<and> conforms observation_schema flds"
    using json_views_conform members_conform by (auto simp: json_observation_def split: option.splits if_splits)
  moreover have "err = [] \<longleftrightarrow> (\<forall>sq t e. rep \<noteq> Errored sq t e)"
    using r error_text_ne [OF assms(2)] by (cases rep) auto
  ultimately show ?thesis using json_lookup(14) [OF j] by auto
qed


theorem json_schema_witness:
  "\<exists>j. print_report sample_error_text sample_attester_flags (Errored 1 (time_Unix 0 0) TimedOut) = Line j
     \<and> member ''error'' j = Some (JString (ascii ''timeout'')) \<and> (\<exists>flds. j = JObject flds \<and> conforms observation_schema flds)"
proof -
  let ?rep = "Errored 1 (time_Unix 0 0) TimedOut"
  obtain j where j: "json_observation (error_observation 1 (time_Unix 0 0)) (ascii ''timeout'') = Some j"
    by (cases "json_observation (error_observation 1 (time_Unix 0 0)) (ascii ''timeout'')")
      (auto simp: json_observation_None error_observation_def)
  then have p: "print_report sample_error_text sample_attester_flags ?rep = Line j"
    by (simp add: print_report_def sample_flags_json)
  from json_schema [OF p sample_error_text_ne] p json_lookup(14) [OF j] show ?thesis by (simp add: ascii_def)
qed

text \<open>
  C26 (\<open>json_lost\<close>). When \<open>-json\<close> prints nothing. A failed pair is always printed. A completed one is printed
  exactly when all coordinates are finite: if the anchor's signed position, or the position of an offset that it sends along, is
  an infinity or a NaN, the encoder fails and the measurement is only logged as an error, although the pair was answered, verified
  and counted.
\<close>

theorem json_lost:
  assumes "jsonOut fl" "observe c fl now sq res anchorPub pub = Ok obs"
  shows "print_report et fl (Errored sq t e) \<noteq> Logged
    \<and> (print_report et fl (Observed obs) = Logged \<longleftrightarrow>
        \<not> f64_finite (Lat (Reply1 res)) \<or> \<not> f64_finite (Lng (Reply1 res))
        \<or> (\<exists>blob \<in> set (Offsets (Reply1 res)). \<exists>lo. Unmarshal blob = Ok lo \<and> \<not> (f64_finite (o_Lat lo) \<and> f64_finite (o_Lng lo))))"
proof -
  note o = observe_times [OF assms(2)]
  have "json_observation (error_observation sq t) err \<noteq> None" for err
    by (simp add: json_observation_None) (simp add: error_observation_def)
  moreover have "json_observation obs [] = None \<longleftrightarrow> \<not> f64_finite (Lat (Reply1 res)) \<or> \<not> f64_finite (Lng (Reply1 res))
        \<or> (\<exists>blob \<in> set (Offsets (Reply1 res)). \<exists>lo. Unmarshal blob = Ok lo \<and> \<not> (f64_finite (o_Lat lo) \<and> f64_finite (o_Lng lo)))"
    using view_offsets_coords [OF o(5)] o(3,4) by (simp add: json_observation_None)
  ultimately show ?thesis using assms(1) by (simp add: print_Logged)
qed

theorem json_lost_witness:
  "\<exists>obs. observe toy_ed25519 sample_attester_flags (time_Unix 0 0) 1 nan_pair (zeros 32) (zeros 32) = Ok obs
     \<and> print_report sample_error_text sample_attester_flags (Observed obs) = Logged"
proof -
  obtain obs where o: "observe toy_ed25519 sample_attester_flags (time_Unix 0 0) 1 nan_pair (zeros 32) (zeros 32) = Ok obs"
    by (rule observe_ok [OF nan_pair_wf])
  have "\<not> f64_finite (Lat (Reply1 nan_pair))" by (simp add: nan_pair_def f64_finite_def f64_exponent_def)
  with json_lost [OF sample_flags_json(1) o] o show ?thesis by blast
qed

text \<open>
  C19 (\<open>json_evidence\<close>). What a verifier finds in the printed document. If the attester measures a pair with \<open>-json\<close> and
  \<open>-raw\<close> and prints a document without an \<open>error\<close> member, then \<open>reply1_raw\<close> is the base64 form of bytes whose last 64
  are the signature of the configured anchor key over the rest; they decode to a packet, and position, interval, challenged
  flag and provable distance of the document are those of this packet. The document's \<open>seq\<close> is the attester's count of
  pairs and not a number of the packet: the packet answers the probe with the sender's second next sequence number, so
  the two numbers differ in general.
\<close>

theorem json_evidence:
  assumes "signer_ok c (signer s)" "remotePubkey s = anchorPub" "jsonOut fl" "raw fl" "\<forall>e. et e \<noteq> []"
    and "measure_pair c fl t sq anchorPub pub s = (s', Report rp)" "print_report et fl rp = Line j" "member ''error'' j = None"
  shows "\<exists>b64 b rep. member ''reply1_raw'' j = Some (JString b64) \<and> base64_decode b64 = Some b \<and> UnmarshalReplyPacket b = Ok rep
    \<and> ed_Verify c anchorPub (take (length b - 64) b) (drop (length b - 64) b)
    \<and> member ''seq'' j = Some (JUint (unat sq)) \<and> Seq (Probe rep) = seq s + 2
    \<and> member ''anchor_key'' j = Some (JString (Format anchorPub))
    \<and> member ''anchor_measured_rtt_ns'' j = Some (JUint (unat (SinceLastRxNs rep)))
    \<and> member ''challenged'' j = Some (JBool (Challenged rep))
    \<and> member ''lat'' j = Some (JBits (Lat rep)) \<and> member ''lon'' j = Some (JBits (Lng rep))
    \<and> member ''provable_max_distance_m'' j = Some (JFloat (ProvableMaxDistance (RttNs rep)))
    \<and> member ''reply1_valid'' j = Some (JBool True) \<and> member ''anchor_key_match'' j = Some (JBool True)"
proof -
  obtain obs err where r: "reported et rp = (obs, err)" by fastforce
  have j: "json_observation obs err = Some j" using assms(7) r by (auto simp: print_report_def split: if_splits option.splits)
  have err: "err = []" using assms(8) json_lookup(14) [OF j] by (auto split: if_splits)
  from assms(1,6) show ?thesis
  proof (cases rule: measure_pair_cases)
    case (2 e)
    with r err error_text_ne [OF assms(5)] show ?thesis by auto
  next
    case (3 obs' res)
    then have o: "obs' = obs" using r by simp
    have wf: "wf_reply (Reply0 res)" "wf_reply (Reply1 res)" "AuthorityPubkey (Reply1 res) = anchorPub" "ReplyPacket_Verify c (Reply1 res)"
      "Seq (Probe (Reply1 res)) = seq s + 2"
      using 3(2) assms(2) by (simp_all add: good_pair_def)
    let ?b = "reply_bytes (Reply1 res)"
    have "base64_encode ?b \<noteq> []"
      using base64_roundtrip [of ?b] length_reply_bytes [OF wf(2)] by (auto simp: base64_decode_def ReplyPacket_Size_def)
    moreover have "AnchorKey obs = Format anchorPub" using 3(3) o by (auto simp: observe_def Let_def bind_r_eq_Ok)
    moreover note signed_tail [OF wf(2-4)] json_lookup [OF j]
    ultimately show ?thesis
      by - (rule observe_ok [OF wf(1,2), of c fl "tn_stamp t" sq anchorPub pub],
        use 3(3) o assms(4) wf in \<open>simp add: base64_roundtrip reply_wire.dec_enc\<close>)
  qed simp
qed

theorem json_evidence_witness:
  "\<exists>t s' rp j b64 b rep. measure_pair toy_ed25519 sample_attester_flags t 1 (remotePubkey sample_sender) (zeros 32) sample_sender = (s', Report rp)
     \<and> print_report sample_error_text sample_attester_flags rp = Line j
     \<and> member ''reply1_raw'' j = Some (JString b64) \<and> base64_decode b64 = Some b \<and> UnmarshalReplyPacket b = Ok rep
     \<and> member ''seq'' j = Some (JUint 1) \<and> Seq (Probe rep) = 8"
proof -
  obtain t s' obs j where
    h: "measure_pair toy_ed25519 sample_attester_flags t 1 (remotePubkey sample_sender) (zeros 32) sample_sender = (s', Report (Observed obs))"
    "print_report sample_error_text sample_attester_flags (Observed obs) = Line j" "member ''error'' j = None"
    by (rule sample_line)
  have "unat (1 :: uint32) = 1" "seq sample_sender + 2 = 8" by (simp_all add: sample_sender_def)
  with json_evidence [OF sample_sender_ok refl sample_flags_json sample_error_text_ne h] h(1,2) show ?thesis by metis
qed

text \<open>
  C39 (\<open>printed_times\<close>). The instants in a printed document, for a clock in the years 0 to 9999: \<open>timestamp\<close> has 20 bytes
  and reads back, by the rules of the calendar, as the second of the measurement; \<open>observed_at\<close> is present exactly
  when the anchor sent a time other than zero and reads back as the second of that time, for all 64-bit values.
\<close>

theorem printed_times:
  assumes "observe c fl now sq res anchorPub pub = Ok obs" "print_report et fl (Observed obs) = Line j"
    and "- 62167219200 \<le> wall now div Second" "wall now div Second < 253402300800"
  shows "\<exists>ts. member ''timestamp'' j = Some (JString ts) \<and> length ts = 20 \<and> read_rfc3339 ts = Some (wall now div Second)
    \<and> (if MeasurementSlot (Reply1 res) = 0 then member ''observed_at'' j = None
       else \<exists>oa. member ''observed_at'' j = Some (JString oa) \<and> length oa = 20
         \<and> read_rfc3339 oa = Some (sint (MeasurementSlot (Reply1 res)) div Second))"
proof -
  note o = observe_times [OF assms(1)]
  have j: "json_observation obs [] = Some j" using assms(2) by (auto simp: print_report_def split: if_splits option.splits)
  let ?slot = "MeasurementSlot (Reply1 res)"
  let ?t = "time_Unix 0 (sint ?slot)"
  have "- (2 ^ 63) \<le> sint ?slot" "sint ?slot < 2 ^ 63" using sint64_bounds [of ?slot] by simp_all
  then have "- 62167219200 \<le> sint ?slot div Second" "sint ?slot div Second < 253402300800"
    using div_bounds [of Second "sint ?slot"] by (simp_all add: Second_def)
  then have r: "length (rfc3339 ?t) = 20" "read_rfc3339 (rfc3339 ?t) = Some (sint ?slot div Second)"
    using rfc3339_read [of ?t] by (simp_all add: days_before_year_values time_Unix_def)
  have "length (rfc3339 now) = 20" "read_rfc3339 (rfc3339 now) = Some (wall now div Second)"
    using rfc3339_read [of now] assms(3,4) by (simp_all add: days_before_year_values)
  with r o json_lookup(2,13) [OF j] show ?thesis by (simp add: observed_text_def now_text_def word_gt_0)
qed

theorem printed_times_witness:
  "\<exists>obs j ts oa. observe toy_ed25519 sample_attester_flags (time_Unix 1700000001 7) 1 plain_pair (zeros 32) (zeros 32) = Ok obs
     \<and> print_report sample_error_text sample_attester_flags (Observed obs) = Line j
     \<and> member ''timestamp'' j = Some (JString ts) \<and> read_rfc3339 ts = Some 1700000001
     \<and> member ''observed_at'' j = Some (JString oa) \<and> read_rfc3339 oa = Some 1700000000"
proof -
  let ?now = "time_Unix 1700000001 7"
  obtain obs where o: "observe toy_ed25519 sample_attester_flags ?now 1 plain_pair (zeros 32) (zeros 32) = Ok obs"
    by (rule observe_ok [OF plain_pair_wf])
  have n: "wall ?now div Second = 1700000001" by (simp add: time_Unix_def Second_def)
  have s: "MeasurementSlot (Reply1 plain_pair) = 1700000000000000000" by (simp add: plain_pair_def)
  have "ob_Lat obs = 0" "ob_Lon obs = 0" "ob_Offsets obs = []" using observe_times [OF o] by (simp_all add: plain_pair_def)
  then obtain j where "json_observation obs [] = Some j"
    by (cases "json_observation obs []") (auto simp: json_observation_None)
  then have p: "print_report sample_error_text sample_attester_flags (Observed obs) = Line j"
    by (simp add: print_report_def sample_flags_json)
  from printed_times [OF o p] n s o p show ?thesis by (auto simp: Second_def)
qed

text \<open>
  C40 (\<open>printed_bound\<close>). The distance on the terminal. The line \<open>provable bound\<close> shows a decimal number of kilometres that is
  within 50 metres (and the rounding of one division) of the bound in metres. It is rounded to the nearest tenth and not upwards:
  any bound up to 49 metres is shown as \<open>within 0.0 km\<close>.
\<close>

theorem printed_bound:
  assumes "observe c fl now sq res anchorPub pub = Ok obs" "m = ProvableMaxDistance (RttNs (Reply1 res))"
  shows "\<exists>pre num post y. render obs [] = pre @ ascii ''  provable bound:        within '' @ num @ ascii '' km'' @ [10] @ post
     \<and> read_fixed num = Some y \<and> \<bar>1000 * y - m\<bar> \<le> 50 + m / 2 ^ 53 \<and> (m \<le> 49 \<longrightarrow> y = 0 \<and> num = ascii ''0.0'')"
proof -
  have m: "m = ProvableMaxDistanceM obs" "0 \<le> m"
    using assms rnd_nonneg by (auto simp: observe_def Let_def bind_r_eq_Ok ProvableMaxDistance_def)
  let ?x = "rnd (m / 1000)"
  have x: "0 \<le> ?x" by (rule rnd_nonneg)
  have e: "\<bar>?x - m / 1000\<bar> \<le> m / 1000 / 2 ^ 53" using rnd_error [of "m / 1000"] m(2) by simp
  obtain y where y: "read_fixed (fixed 1 ?x) = Some y" "\<bar>y - ?x\<bar> \<le> 1 / 20" using fixed_accurate [OF x, of 1] by auto
  define q where "q = m / 1000 / 2 ^ 53"
  have q: "m / 2 ^ 53 = 1000 * q" by (simp add: q_def)
  have acc: "\<bar>1000 * y - m\<bar> \<le> 50 + m / 2 ^ 53" using y(2) e unfolding q q_def [symmetric] by linarith
  have small: "y = 0 \<and> fixed 1 ?x = ascii ''0.0''" if "m \<le> 49"
  proof -
    have "q \<le> 1 / 2 ^ 53" using that by (simp add: q_def)
    then have "q < 1 / 1000" by simp
    then have "?x * 10 < 1 / 2" using e that unfolding q_def [symmetric] by linarith
    moreover have "\<lfloor>?x * 10\<rfloor> = 0" using x calculation by (simp add: floor_eq_iff)
    ultimately have "round_even (?x * 10 ^ 1) = 0" by (simp add: round_even_def)
    with read_fixed_fixed [OF x, of 1] y(1) show ?thesis
      by (simp add: fixed_def Let_def ascii_def decimal.simps digit_char_def)
  qed
  obtain pre post where "render obs [] = pre @ line ''  provable bound:        within '' (fixed 1 ?x) '' km'' @ post"
    using render_bound_line unfolding m(1) by blast
  then have "render obs [] = pre @ ascii ''  provable bound:        within '' @ fixed 1 ?x @ ascii '' km'' @ [10] @ post"
    by (simp add: line_def)
  with y(1) acc small show ?thesis by blast
qed

theorem printed_bound_witness:
  "\<exists>obs pre post. observe toy_ed25519 sample_attester_flags (time_Unix 0 0) 1 plain_pair (zeros 32) (zeros 32) = Ok obs
     \<and> ProvableMaxDistance 200 > 29
     \<and> render obs [] = pre @ ascii ''  provable bound:        within 0.0 km'' @ [10] @ post"
proof -
  obtain obs where o: "observe toy_ed25519 sample_attester_flags (time_Unix 0 0) 1 plain_pair (zeros 32) (zeros 32) = Ok obs"
    by (rule observe_ok [OF plain_pair_wf])
  have r: "RttNs (Reply1 plain_pair) = 200" by (simp add: plain_pair_def)
  have "\<bar>ProvableMaxDistance 200 - 200 / 1000000000 / 2 * 299792458\<bar> \<le> 200 / 1000000000 / 2 * 299792458 / 2 ^ 51"
    using ProvableMaxDistance_error [of 200] by simp
  also have "\<dots> \<le> 1 / 2" by simp
  finally have d: "ProvableMaxDistance 200 > 29" "ProvableMaxDistance 200 \<le> 49" by linarith+
  obtain pre post where "render obs [] = pre @ ascii ''  provable bound:        within '' @ ascii ''0.0'' @ ascii '' km'' @ [10] @ post"
    using printed_bound [OF o refl] d(2) unfolding r by metis
  then have "render obs [] = pre @ ascii ''  provable bound:        within 0.0 km'' @ [10] @ post" by (simp add: ascii_def)
  with o d(1) show ?thesis by blast
qed

end
