(* ===== verification/Reflector_Race.thy ===== *)
theory Reflector_Race
  imports Reflector
begin

text \<open>
  The reflector with its goroutines interleaved inside one datagram. \<open>Run\<close> touches shared state at three
  points: the lookup of the allowlist, \<open>LoadOrStore\<close> of the sender's state, and the read of the
  offsets under their lock; between them the setters of other goroutines may run, and \<open>SetAuthorizedKeys\<close>
  itself is a sequence of single map operations. Sender states are objects behind pointers: a state that
  is deleted from the map while \<open>Run\<close> holds its pointer lives on, detached. Here the objects are in an
  explicit store. What \<open>Run\<close> does between two shared accesses concerns only its own object and is one step.
\<close>

section \<open>State\<close>

text \<open>Where \<open>Run\<close> is: waiting, behind the allowlist check, or behind the pair step.\<close>

datatype phase =
    Idle
  | Checked datagram ProbePacket gotime
  | Stepped datagram ProbePacket gotime nat bool uint64 bool

text \<open>
  \<open>base\<close> has the configuration, the allowlist and the offsets; its \<open>senderStates\<close> is not used. \<open>sent\<close> is the
  history of replies, each with the datagram it answers.
\<close>

record shared =
  base :: LinuxReflector
  pointers :: "bytes \<rightharpoonup> nat"
  store :: "nat \<rightharpoonup> senderState"
  fresh :: nat
  phase :: phase
  sent :: "(datagram \<times> bytes) list"

definition initial :: "LinuxReflector \<Rightarrow> shared" where
  "initial r = \<lparr>base = r, pointers = Map.empty, store = Map.empty, fresh = 0, phase = Idle, sent = []\<rparr>"

section \<open>The receiver\<close>

text \<open>From \<open>recvmsg\<close> to the lookup of the allowlist.\<close>

definition check_step :: "datagram \<Rightarrow> shared \<Rightarrow> shared \<times> outcome option" where
  "check_step d s =
     (if length (dg_data d) \<noteq> ProbePacketSize then (s, Some (Drop NotProbeSize))
      else case UnmarshalProbePacket (dg_data d) of
        Panic \<Rightarrow> (s, Some Crash)
      | Err e \<Rightarrow> (s, Some (Drop (Undecodable e)))
      | Ok probe \<Rightarrow>
          if authorizedKeys (base s) (SenderPubkey probe) = None then (s, Some (Drop Unauthorized))
          else (s\<lparr>phase := Checked d probe (kernelTimestamp (dg_oob d) (dg_now_rx d))\<rparr>, None))"

definition LoadOrStore :: "bytes \<Rightarrow> shared \<Rightarrow> nat \<times> shared" where
  "LoadOrStore k s =
     (case pointers s k of
        Some a \<Rightarrow> (a, s)
      | None \<Rightarrow> (fresh s, s\<lparr>pointers := (pointers s)(k \<mapsto> fresh s),
                   store := (store s)(fresh s \<mapsto> new_senderState), fresh := Suc (fresh s)\<rparr>))"

definition put_object :: "nat \<Rightarrow> senderState \<Rightarrow> shared \<Rightarrow> shared" where
  "put_object a st s = s\<lparr>store := (store s)(a \<mapsto> st)\<rparr>"

definition to_idle :: "shared \<Rightarrow> shared" where
  "to_idle s = s\<lparr>phase := Idle\<rparr>"

text \<open>From \<open>LoadOrStore\<close> to the read of the offsets.\<close>

definition state_step :: "datagram \<Rightarrow> ProbePacket \<Rightarrow> gotime \<Rightarrow> shared \<Rightarrow> shared \<times> outcome option" where
  "state_step d probe now s =
     (case LoadOrStore (SenderPubkey probe) s of (a, s) \<Rightarrow>
     (let st = the (store s a) in
      if rate_limited (base s) now st then (to_idle s, Some (Drop RateLimited))
      else
      let st = stale_reset now (window_reset (base s) st) in
      case dg_from d of
        SockaddrOther \<Rightarrow> (to_idle (put_object a st s), Some (Drop NotIPv4))
      | SockaddrInet4 _ addr \<Rightarrow>
          if pairCount st \<noteq> 0 \<and> addr \<noteq> pairSourceIP st then (to_idle (put_object a st s), Some (Drop SourceMismatch))
          else
          let st = (if pairCount st = 0 then st\<lparr>pairSourceIP := addr\<rparr> else st);
              isProbe0 = (pairCount st = 0);
              (st, sinceLastRxNs, challenged) = pair_step now (dg_random d) probe st
          in ((put_object a st s)\<lparr>phase := Stepped d probe now a isProbe0 sinceLastRxNs challenged\<rparr>, None)))"

text \<open>From the read of the offsets to the transmission.\<close>

definition send_step ::
    "ed25519 \<Rightarrow> datagram \<Rightarrow> ProbePacket \<Rightarrow> nat \<Rightarrow> bool \<Rightarrow> uint64 \<Rightarrow> bool \<Rightarrow> shared \<Rightarrow> shared \<times> outcome option" where
  "send_step c d probe a isProbe0 sinceLastRxNs challenged s =
     (case build_reply c (base s) probe isProbe0 sinceLastRxNs challenged of
        Panic \<Rightarrow> (to_idle s, Some Crash)
      | Err e \<Rightarrow> (to_idle s, Some (Drop (ReplyFailed e)))
      | Ok b \<Rightarrow> ((to_idle (put_object a ((the (store s a))\<lparr>lastTxTime := dg_now_tx d\<rparr>) s))\<lparr>sent := sent s @ [(d, b)]\<rparr>,
                 Some (Sent b (dg_from d))))"

section \<open>The setters\<close>

text \<open>The single operations on the two maps, and the assignment of the offsets.\<close>

datatype map_op = DeleteKey bytes | DeleteState bytes | StoreKey bytes | AssignOffsets "bytes list"

fun map_step :: "map_op \<Rightarrow> shared \<Rightarrow> shared" where
  "map_step (DeleteKey k) s = s\<lparr>base := (base s)\<lparr>authorizedKeys := (authorizedKeys (base s))(k := None)\<rparr>\<rparr>"
| "map_step (DeleteState k) s = s\<lparr>pointers := (pointers s)(k := None)\<rparr>"
| "map_step (StoreKey k) s = s\<lparr>base := (base s)\<lparr>authorizedKeys := (authorizedKeys (base s))(k \<mapsto> ())\<rparr>\<rparr>"
| "map_step (AssignOffsets os) s = s\<lparr>base := SetOffsets os (base s)\<rparr>"

text \<open>
  \<open>SetAuthorizedKeys\<close> as the sequence of its map operations, for the order in which \<open>Range\<close> visits the stored
  keys.
\<close>

fun range_ops :: "bytes list \<Rightarrow> bytes list \<Rightarrow> map_op list" where
  "range_ops keys [] = []"
| "range_ops keys (k # visited) =
     (if k \<notin> set keys then [DeleteKey k, DeleteState k] else []) @ range_ops keys visited"

definition reload_ops :: "bytes list \<Rightarrow> bytes list \<Rightarrow> map_op list" where
  "reload_ops keys visited = range_ops keys visited @ map StoreKey keys"

section \<open>Interleavings\<close>

text \<open>
  What the scheduler may do next: a datagram arrives, \<open>Run\<close> proceeds with the one it has, another goroutine does
  one operation. A datagram that arrives while \<open>Run\<close> is busy stays in the socket.
\<close>

datatype act = Arrive datagram | Proceed | Setter map_op

definition act_step :: "ed25519 \<Rightarrow> act \<Rightarrow> shared \<Rightarrow> shared" where
  "act_step c x s =
     (case x of
        Arrive d \<Rightarrow> (if phase s = Idle then fst (check_step d s) else s)
      | Proceed \<Rightarrow>
          (case phase s of
             Idle \<Rightarrow> s
           | Checked d p now \<Rightarrow> fst (state_step d p now s)
           | Stepped d p now a i since ch \<Rightarrow> fst (send_step c d p a i since ch s))
      | Setter q \<Rightarrow> map_step q s)"

fun play :: "ed25519 \<Rightarrow> act list \<Rightarrow> shared \<Rightarrow> shared" where
  "play c [] s = s"
| "play c (x # xs) s = play c xs (act_step c x s)"

text \<open>
  The schedules without interleaving: every datagram and every setter runs to its end before the next
  begins. \<open>Range\<close> visits the keys of the allowlist in any order.
\<close>

inductive serial :: "ed25519 \<Rightarrow> shared \<Rightarrow> event list \<Rightarrow> act list \<Rightarrow> bool" for c where
  serial_nil: "serial c s [] []"
| serial_dg: "serial c (play c [Arrive d, Proceed, Proceed] s) es xs \<Longrightarrow>
    serial c s (Dg d # es) ([Arrive d, Proceed, Proceed] @ xs)"
| serial_reload: "set visited = dom (authorizedKeys (base s)) \<Longrightarrow>
    serial c (play c (map Setter (reload_ops keys visited)) s) es xs \<Longrightarrow>
    serial c s (Reload keys # es) (map Setter (reload_ops keys visited) @ xs)"
| serial_refresh: "serial c (play c [Setter (AssignOffsets os)] s) es xs \<Longrightarrow>
    serial c s (Refresh os # es) ([Setter (AssignOffsets os)] @ xs)"

section \<open>Without interruption\<close>

text \<open>The reflector of the atomic model: the map of states is read through the pointers.\<close>

definition abs_reflector :: "shared \<Rightarrow> LinuxReflector" where
  "abs_reflector s = (base s)\<lparr>senderStates := store s \<circ>\<^sub>m pointers s\<rparr>"

definition pointers_ok :: "shared \<Rightarrow> bool" where
  "pointers_ok s \<longleftrightarrow> (\<forall>k a. pointers s k = Some a \<longrightarrow> a < fresh s \<and> store s a \<noteq> None)
     \<and> (\<forall>k k' a. pointers s k = Some a \<longrightarrow> pointers s k' = Some a \<longrightarrow> k = k')"

lemma pointers_okD:
  assumes "pointers_ok s" "pointers s k = Some a"
  shows "a < fresh s" "\<exists>st. store s a = Some st" "a \<noteq> fresh s" "\<And>k'. pointers s k' = Some a \<Longrightarrow> k' = k"
  using assms by (auto simp: pointers_ok_def)

lemma LoadOrStore_cases:
  assumes "LoadOrStore k s = (a, s')" "pointers_ok s"
  shows "pointers s' = (pointers s)(k \<mapsto> a)" "store s' a = Some (current_state (abs_reflector s) k)"
    "a' \<noteq> a \<Longrightarrow> store s' a' = store s a'" "base s' = base s" "phase s' = phase s" "sent s' = sent s" "pointers_ok s'"
    "k' \<noteq> k \<Longrightarrow> pointers s k' \<noteq> Some a" "pointers s k = None \<Longrightarrow> a = fresh s" "fresh s \<le> fresh s'" "a < fresh s'"
proof -
  consider "pointers s k = None" "a = fresh s"
      "s' = s\<lparr>pointers := (pointers s)(k \<mapsto> fresh s), store := (store s)(fresh s \<mapsto> new_senderState), fresh := Suc (fresh s)\<rparr>"
    | "pointers s k = Some a" "s' = s"
    using assms(1) by (cases "pointers s k") (auto simp: LoadOrStore_def)
  note split = this
  show "pointers s' = (pointers s)(k \<mapsto> a)" "base s' = base s" "phase s' = phase s" "sent s' = sent s"
    "fresh s \<le> fresh s'" "pointers s k = None \<Longrightarrow> a = fresh s"
    by (cases rule: split; auto simp: fun_eq_iff)+
  show "store s' a = Some (current_state (abs_reflector s) k)"
    by (cases rule: split) (use pointers_okD(2) [OF assms(2)] in \<open>fastforce simp: current_state_def abs_reflector_def map_comp_def split: option.splits\<close>)+
  show "a' \<noteq> a \<Longrightarrow> store s' a' = store s a'" by (cases rule: split) auto
  show "k' \<noteq> k \<Longrightarrow> pointers s k' \<noteq> Some a" "a < fresh s'"
    by (cases rule: split; use pointers_okD [OF assms(2)] in auto)+
  show "pointers_ok s'" by (cases rule: split) (use assms(2) in \<open>auto simp: pointers_ok_def less_Suc_eq\<close>)
qed

lemma abs_put:
  assumes "pointers s k = Some a" "pointers_ok s"
  shows "abs_reflector (put_object a st s) = put_state k st (abs_reflector s)"
proof -
  have "(store s)(a \<mapsto> st) \<circ>\<^sub>m pointers s = (store s \<circ>\<^sub>m pointers s)(k \<mapsto> st)"
    using assms by (auto simp: pointers_ok_def map_comp_def fun_eq_iff split: option.splits)
  then show ?thesis by (simp add: abs_reflector_def put_object_def put_state_def)
qed

lemma abs_sel [simp]:
  "authorizedKeys (abs_reflector s) = authorizedKeys (base s)" "verifyInterval (abs_reflector s) = verifyInterval (base s)"
  "rate_limited (abs_reflector s) now st = rate_limited (base s) now st" "window_reset (abs_reflector s) st = window_reset (base s) st"
  "build_reply c (abs_reflector s) p i since ch = build_reply c (base s) p i since ch"
  by (simp_all add: abs_reflector_def rate_limited_def window_reset_def build_reply_def)

lemma abs_frame [simp]:
  "abs_reflector (s\<lparr>phase := x\<rparr>) = abs_reflector s" "abs_reflector (s\<lparr>sent := y\<rparr>) = abs_reflector s"
  "abs_reflector (to_idle s) = abs_reflector s"
  by (simp_all add: abs_reflector_def to_idle_def)

lemma put_put: "put_object a st' (put_object a st s) = put_object a st' s"
  by (simp add: put_object_def)

lemma put_phase [simp]: "put_object a st (s\<lparr>phase := q\<rparr>) = (put_object a st s)\<lparr>phase := q\<rparr>"
  by (simp add: put_object_def)

lemma put_object_sel [simp]:
  "base (put_object a st s) = base s" "pointers (put_object a st s) = pointers s" "store (put_object a st s) = (store s)(a \<mapsto> st)"
  "fresh (put_object a st s) = fresh s" "phase (put_object a st s) = phase s" "sent (put_object a st s) = sent s"
  by (simp_all add: put_object_def)

lemma to_idle_sel [simp]:
  "base (to_idle s) = base s" "pointers (to_idle s) = pointers s" "store (to_idle s) = store s"
  "fresh (to_idle s) = fresh s" "phase (to_idle s) = Idle" "sent (to_idle s) = sent s"
  by (simp_all add: to_idle_def)

lemma pointers_ok_put: "pointers_ok s \<Longrightarrow> pointers_ok (put_object a st s)"
  by (auto simp: pointers_ok_def)

lemma put_state_same: "put_state k st (put_state k st' r) = put_state k st r"
  by (simp add: put_state_def)

lemma LoadOrStore_abs:
  assumes "LoadOrStore k s = (a, s')" "pointers_ok s"
  shows "abs_reflector s' = put_state k (current_state (abs_reflector s) k) (abs_reflector s)"
proof -
  note l = LoadOrStore_cases [OF assms]
  have "store s' \<circ>\<^sub>m pointers s' = (store s \<circ>\<^sub>m pointers s)(k \<mapsto> current_state (abs_reflector s) k)"
  proof
    show "(store s' \<circ>\<^sub>m pointers s') k' = ((store s \<circ>\<^sub>m pointers s)(k \<mapsto> current_state (abs_reflector s) k)) k'" for k'
    using l(1,2) l(3,8) [of _] by (cases "k' = k"; cases "pointers s k'") (simp_all add: map_comp_def, metis)
  qed
  with l(4) show ?thesis by (simp add: abs_reflector_def put_state_def)
qed

text \<open>The replies that an outcome adds to the history.\<close>

definition sent_by :: "datagram \<Rightarrow> outcome \<Rightarrow> (datagram \<times> bytes) list" where
  "sent_by d out = (case out of Sent b _ \<Rightarrow> [(d, b)] | _ \<Rightarrow> [])"

text \<open>The second and third step, for a checked probe, are \<open>serve\<close> behind the rate limit.\<close>

lemma state_send_serve:
  assumes "pointers_ok s" "LoadOrStore (SenderPubkey p) s = (a, s1)" "st = current_state (abs_reflector s) (SenderPubkey p)"
    and "\<not> rate_limited (base s) now st"
    and "s3 = act_step c Proceed (fst (state_step d p now s))"
  shows "let served = serve c d now p (stale_reset now (window_reset (base s) st)) (abs_reflector s)
    in abs_reflector s3 = fst served \<and> phase s3 = Idle \<and> sent s3 = sent s @ sent_by d (snd served)"
proof -
  note l = LoadOrStore_cases [OF assms(2,1)]
  let ?k = "SenderPubkey p"
  have ptr: "pointers s1 ?k = Some a" using l(1) by simp
  have "abs_reflector s1 = put_state ?k st (abs_reflector s)"
    using LoadOrStore_abs [OF assms(2,1)] assms(3) by simp
  then have put: "abs_reflector (put_object a x s1) = put_state ?k x (abs_reflector s)" for x
    using abs_put [OF ptr l(7)] by (simp add: put_state_same)
  have br: "build_reply c (base s) p i since ch = build_reply c (abs_reflector s) p i since ch" for i since ch by simp
  let ?e = "stale_reset now (window_reset (base s) st)"
  have the: "the (store s1 a) = st" using l(2) assms(3) by simp
  show ?thesis
  proof (cases "dg_from d")
    case SockaddrOther
    with assms(2,4,5) put the l(4,6) show ?thesis by (simp add: state_step_def Let_def serve_def act_step_def sent_by_def)
  next
    case (SockaddrInet4 q addr)
    show ?thesis
    proof (cases "pairCount ?e \<noteq> 0 \<and> addr \<noteq> pairSourceIP ?e")
      case True
      with assms(2,4,5) put the l(4,6) SockaddrInet4 show ?thesis
        by (simp add: state_step_def Let_def serve_def act_step_def sent_by_def)
    next
      case False
      let ?e' = "if pairCount ?e = 0 then ?e\<lparr>pairSourceIP := addr\<rparr> else ?e"
      obtain st2 since ch where ps: "pair_step now (dg_random d) p ?e' = (st2, since, ch)" by (metis prod_cases3)
      let ?i = "pairCount ?e' = 0"
      let ?s2 = "(put_object a st2 s1)\<lparr>phase := Stepped d p now a ?i since ch\<rparr>"
      have s2: "state_step d p now s = (?s2, None)"
        using assms(2,4) the l(4) SockaddrInet4 False ps by (auto simp: state_step_def Let_def)
      have serve: "serve c d now p ?e (abs_reflector s) =
          (case build_reply c (base s) p ?i since ch of
             Panic \<Rightarrow> (put_state ?k st2 (abs_reflector s), Crash)
           | Err e \<Rightarrow> (put_state ?k st2 (abs_reflector s), Drop (ReplyFailed e))
           | Ok bytes \<Rightarrow> (put_state ?k (st2\<lparr>lastTxTime := dg_now_tx d\<rparr>) (abs_reflector s), Sent bytes (dg_from d)))"
        using SockaddrInet4 False ps by (auto simp: serve_def Let_def)
      have s3: "s3 = fst (send_step c d p a ?i since ch ?s2)" using assms(5) s2 by (simp add: act_step_def)
      show ?thesis
        using put l(4,6) unfolding serve s3 send_step_def Let_def
        by (cases "build_reply c (base s) p ?i since ch") (simp_all add: put_put sent_by_def flip: put_object_def)
    qed
  qed
qed

lemma uninterrupted_handle:
  assumes ok: "pointers_ok s" and idle: "phase s = Idle" and s': "s' = play c [Arrive d, Proceed, Proceed] s"
  shows "abs_reflector s' = fst (handle c d (abs_reflector s)) \<and> phase s' = Idle
     \<and> sent s' = sent s @ sent_by d (snd (handle c d (abs_reflector s)))"
proof (cases "\<exists>p. length (dg_data d) = 108 \<and> UnmarshalProbePacket (dg_data d) = Ok p \<and> authorizedKeys (base s) (SenderPubkey p) \<noteq> None")
  case False
  then have "length (dg_data d) \<noteq> 108 \<or> (\<exists>p. UnmarshalProbePacket (dg_data d) = Ok p \<and> authorizedKeys (base s) (SenderPubkey p) = None)"
    using UnmarshalProbePacket_total by blast
  with idle s' show ?thesis by (auto simp: act_step_def check_step_def handle_def sent_by_def)
next
  case True
  then obtain p where p: "length (dg_data d) = 108" "UnmarshalProbePacket (dg_data d) = Ok p"
    "authorizedKeys (base s) (SenderPubkey p) \<noteq> None" by blast
  let ?now = "kernelTimestamp (dg_oob d) (dg_now_rx d)" and ?k = "SenderPubkey p"
  let ?s = "s\<lparr>phase := Checked d p ?now\<rparr>" and ?st = "current_state (abs_reflector s) ?k"
  have c: "act_step c (Arrive d) s = ?s" using p idle by (auto simp: check_step_def act_step_def)
  have ok': "pointers_ok ?s" using ok by (simp add: pointers_ok_def)
  obtain a s1 where l: "LoadOrStore ?k ?s = (a, s1)" by fastforce
  note l' = LoadOrStore_cases [OF l ok'] LoadOrStore_abs [OF l ok']
  have h: "handle c d (abs_reflector s) = (if rate_limited (base s) ?now ?st then (put_state ?k ?st (abs_reflector s), Drop RateLimited)
     else serve c d ?now p (stale_reset ?now (window_reset (base s) ?st)) (abs_reflector s))"
    using p by (simp add: handle_def Let_def current_state_def)
  show ?thesis
  proof (cases "rate_limited (base s) ?now ?st")
    case True
    with l l' have "state_step d p ?now ?s = (to_idle s1, Some (Drop RateLimited))" by (simp add: state_step_def Let_def)
    with c s' have "s' = to_idle s1" by (simp add: act_step_def)
    with h True l'(6,12) show ?thesis by (simp add: sent_by_def)
  next
    case False
    have "act_step c Proceed ?s = fst (state_step d p ?now ?s)" by (simp add: act_step_def)
    with s' c have "s' = act_step c Proceed (fst (state_step d p ?now ?s))" by simp
    with False state_send_serve [OF ok' l refl, of ?now s' c d] h show ?thesis by (simp add: Let_def)
  qed
qed

section \<open>Reloads\<close>

interpretation race_run: event_system "act_step c" "play c" for c
  by unfold_locales simp_all

lemma map_step_config [simp]:
  "rsigner (base (map_step q s)) = rsigner (base s)" "geoprobePubkey (base (map_step q s)) = geoprobePubkey (base s)"
  "verifyInterval (base (map_step q s)) = verifyInterval (base s)"
  "phase (map_step q s) = phase s" "sent (map_step q s) = sent s" "store (map_step q s) = store s" "fresh (map_step q s) = fresh s"
  by (cases q; simp)+

lemma act_Setter [simp]: "act_step c (Setter q) s = map_step q s"
  by (simp add: act_step_def)

text \<open>What a sequence of map operations does to one key.\<close>

lemma map_step_key:
  "authorizedKeys (base (map_step q s)) k =
     (if q = DeleteKey k then None else if q = StoreKey k then Some () else authorizedKeys (base s) k)"
  "pointers (map_step q s) k = (if q = DeleteState k then None else pointers s k)"
  by (cases q; auto)+

lemma play_Setter_other:
  "phase (play c (map Setter qs) s) = phase s" "sent (play c (map Setter qs) s) = sent s"
  "DeleteState k \<notin> set qs \<Longrightarrow> pointers (play c (map Setter qs) s) k = pointers s k"
  "store (play c (map Setter qs) s) = store s" "fresh (play c (map Setter qs) s) = fresh s"
  "DeleteKey k \<notin> set qs \<Longrightarrow> StoreKey k \<notin> set qs \<Longrightarrow> authorizedKeys (base (play c (map Setter qs) s)) k = authorizedKeys (base s) k"
  by (induction qs arbitrary: s) (auto simp: map_step_key)

lemma play_Setter_stays:
  "pointers s k = None \<Longrightarrow> pointers (play c (map Setter qs) s) k = None"
  "authorizedKeys (base s) k = None \<Longrightarrow> StoreKey k \<notin> set qs \<Longrightarrow> authorizedKeys (base (play c (map Setter qs) s)) k = None"
  "authorizedKeys (base s) k = Some () \<Longrightarrow> DeleteKey k \<notin> set qs \<Longrightarrow> authorizedKeys (base (play c (map Setter qs) s)) k = Some ()"
  by (induction qs arbitrary: s; auto simp: map_step_key)+

lemma play_Setter_gone:
  "DeleteState k \<in> set qs \<Longrightarrow> pointers (play c (map Setter qs) s) k = None"
  "DeleteKey k \<in> set qs \<Longrightarrow> StoreKey k \<notin> set qs \<Longrightarrow> authorizedKeys (base (play c (map Setter qs) s)) k = None"
  "StoreKey k \<in> set qs \<Longrightarrow> DeleteKey k \<notin> set qs \<Longrightarrow> authorizedKeys (base (play c (map Setter qs) s)) k = Some ()"
proof -
  have split: "play c (map Setter (ps @ q # qs)) s = play c (map Setter qs) (map_step q (play c (map Setter ps) s))" for ps q qs
    by (simp add: race_run.run_append)
  show "DeleteState k \<in> set qs \<Longrightarrow> pointers (play c (map Setter qs) s) k = None"
    "DeleteKey k \<in> set qs \<Longrightarrow> StoreKey k \<notin> set qs \<Longrightarrow> authorizedKeys (base (play c (map Setter qs) s)) k = None"
    "StoreKey k \<in> set qs \<Longrightarrow> DeleteKey k \<notin> set qs \<Longrightarrow> authorizedKeys (base (play c (map Setter qs) s)) k = Some ()"
    by (drule split_list, clarify, simp only: split, rule play_Setter_stays; simp)+
qed

lemma set_reload_ops [simp]:
  "DeleteKey k \<in> set (reload_ops keys vis) \<longleftrightarrow> k \<in> set vis \<and> k \<notin> set keys"
  "DeleteState k \<in> set (reload_ops keys vis) \<longleftrightarrow> k \<in> set vis \<and> k \<notin> set keys"
  "StoreKey k \<in> set (reload_ops keys vis) \<longleftrightarrow> k \<in> set keys" "AssignOffsets os \<notin> set (reload_ops keys vis)"
proof -
  have "DeleteKey k \<in> set (range_ops keys vis) \<longleftrightarrow> k \<in> set vis \<and> k \<notin> set keys"
    "DeleteState k \<in> set (range_ops keys vis) \<longleftrightarrow> k \<in> set vis \<and> k \<notin> set keys"
    "StoreKey k \<notin> set (range_ops keys vis)" "AssignOffsets os \<notin> set (range_ops keys vis)"
    by (induction keys vis rule: range_ops.induct) auto
  then show "DeleteKey k \<in> set (reload_ops keys vis) \<longleftrightarrow> k \<in> set vis \<and> k \<notin> set keys"
    "DeleteState k \<in> set (reload_ops keys vis) \<longleftrightarrow> k \<in> set vis \<and> k \<notin> set keys"
    "StoreKey k \<in> set (reload_ops keys vis) \<longleftrightarrow> k \<in> set keys" "AssignOffsets os \<notin> set (reload_ops keys vis)"
    by (auto simp: reload_ops_def)
qed


lemma play_Setter_rest:
  "\<forall>os. AssignOffsets os \<notin> set qs \<Longrightarrow> (base (play c (map Setter qs) s))\<lparr>authorizedKeys := m\<rparr> = (base s)\<lparr>authorizedKeys := m\<rparr>"
proof (induction qs arbitrary: s)
  case (Cons q qs)
  then show ?case by (cases q) auto
qed simp

lemma SetAuthorizedKeys_rest: "(SetAuthorizedKeys keys r)\<lparr>authorizedKeys := m, senderStates := n\<rparr> = r\<lparr>authorizedKeys := m, senderStates := n\<rparr>"
  by (simp add: SetAuthorizedKeys_def Let_def)

lemma LinuxReflector_eqI:
  "authorizedKeys r = authorizedKeys r' \<Longrightarrow> senderStates r = senderStates r' \<Longrightarrow>
   r\<lparr>authorizedKeys := m, senderStates := n\<rparr> = r'\<lparr>authorizedKeys := m, senderStates := n\<rparr> \<Longrightarrow> (r :: LinuxReflector) = r'"
  by (cases r; cases r') simp

lemma reload_SetAuthorizedKeys:
  assumes "set visited = dom (authorizedKeys (base s))" "s' = play c (map Setter (reload_ops keys visited)) s"
  shows "abs_reflector s' = SetAuthorizedKeys keys (abs_reflector s)"
proof -
  have v: "k \<in> set visited \<longleftrightarrow> authorizedKeys (base s) k \<noteq> None" for k using assms(1) by auto
  have "authorizedKeys (base s') k = (if k \<in> set keys then Some () else None)" for k
    using play_Setter_gone(2,3) [of k "reload_ops keys visited" c s] play_Setter_other(6) [of k "reload_ops keys visited" c s]
    by (cases "authorizedKeys (base s) k") (auto simp: assms(2) v)
  moreover have "pointers s' k = (if authorizedKeys (base s) k \<noteq> None \<and> k \<notin> set keys then None else pointers s k)" for k
    using play_Setter_gone(1) [of k "reload_ops keys visited" c s] play_Setter_other(3) [of k "reload_ops keys visited" c s]
    by (auto simp: assms(2) v)
  ultimately have "authorizedKeys (abs_reflector s') = authorizedKeys (SetAuthorizedKeys keys (abs_reflector s))"
    "senderStates (abs_reflector s') = senderStates (SetAuthorizedKeys keys (abs_reflector s))"
    by (auto simp: fun_eq_iff SetAuthorizedKeys_sel abs_reflector_def map_comp_def play_Setter_other(4) assms(2))
  then show ?thesis
  proof (rule LinuxReflector_eqI)
    have "(base s')\<lparr>authorizedKeys := m, senderStates := n\<rparr> = (base s)\<lparr>authorizedKeys := m, senderStates := n\<rparr>" for m n
      unfolding assms(2) by (subst play_Setter_rest) simp_all
    then show "(abs_reflector s')\<lparr>authorizedKeys := Map.empty, senderStates := Map.empty\<rparr>
       = (SetAuthorizedKeys keys (abs_reflector s))\<lparr>authorizedKeys := Map.empty, senderStates := Map.empty\<rparr>"
      by (simp add: SetAuthorizedKeys_rest abs_reflector_def)
  qed
qed

lemma map_step_pointers_ok: "pointers_ok s \<Longrightarrow> pointers_ok (map_step q s)"
  by (cases q) (auto simp: pointers_ok_def split: if_splits)

lemma check_step_frame [simp]:
  "base (fst (check_step d s)) = base s" "pointers (fst (check_step d s)) = pointers s"
  "store (fst (check_step d s)) = store s" "fresh (fst (check_step d s)) = fresh s" "sent (fst (check_step d s)) = sent s"
  by (auto simp: check_step_def split: result.splits)

text \<open>The pair step: the sender's object is kept or reset and \<open>Run\<close> is idle again, or the pair advances.\<close>

lemma state_step_cases [consumes 1, case_names quiet stepped]:
  assumes "pointers_ok s"
  obtains a s1 st where "LoadOrStore (SenderPubkey p) s = (a, s1)" "fst (state_step d p now s) = to_idle (put_object a st s1)"
      "st = current_state (abs_reflector s) (SenderPubkey p) \<or> st = entry_state (abs_reflector s) now (SenderPubkey p)"
  | a s1 st prt addr st2 since ch where "LoadOrStore (SenderPubkey p) s = (a, s1)"
      "st = entry_state (abs_reflector s) now (SenderPubkey p)" "dg_from d = SockaddrInet4 prt addr"
      "pairCount st \<noteq> 0 \<Longrightarrow> addr = pairSourceIP st" "pair_step now (dg_random d) p (st\<lparr>pairSourceIP := addr\<rparr>) = (st2, since, ch)"
      "fst (state_step d p now s) = (put_object a st2 s1)\<lparr>phase := Stepped d p now a (pairCount st = 0) since ch\<rparr>"
proof -
  obtain a s1 where l: "LoadOrStore (SenderPubkey p) s = (a, s1)" by fastforce
  note l' = LoadOrStore_cases [OF l assms]
  let ?cur = "current_state (abs_reflector s) (SenderPubkey p)"
  let ?st = "entry_state (abs_reflector s) now (SenderPubkey p)"
  have e: "?st = stale_reset now (window_reset (base s) ?cur)" by (simp add: entry_state_def)
  have same: "put_object a ?cur s1 = s1" using l'(2) by (simp add: put_object_def map_upd_triv)
  show thesis
  proof (cases "rate_limited (base s) now ?cur")
    case True
    with l l' same show ?thesis by (intro that(1) [of a s1 ?cur]) (simp_all add: state_step_def Let_def)
  next
    case False
    show ?thesis
    proof (cases "dg_from d = SockaddrOther \<or> (\<exists>q addr. dg_from d = SockaddrInet4 q addr \<and> pairCount ?st \<noteq> 0 \<and> addr \<noteq> pairSourceIP ?st)")
      case True
      with l l' False show ?thesis
        by (intro that(1) [of a s1 ?st]) (auto simp: state_step_def Let_def e simp del: entry_state_sel)
    next
      case ok: False
      then obtain q addr where f: "dg_from d = SockaddrInet4 q addr" "pairCount ?st \<noteq> 0 \<Longrightarrow> addr = pairSourceIP ?st"
        by (cases "dg_from d") auto
      obtain st2 since ch where ps: "pair_step now (dg_random d) p (?st\<lparr>pairSourceIP := addr\<rparr>) = (st2, since, ch)"
        by (metis prod_cases3)
      have "fst (state_step d p now s) = (put_object a st2 s1)\<lparr>phase := Stepped d p now a (pairCount ?st = 0) since ch\<rparr>"
      proof (cases "pairCount ?st = 0")
        case True
        with l l'(2,4) False f(1) ps show ?thesis by (simp add: state_step_def Let_def flip: e)
      next
        case nz: False
        then have "?st\<lparr>pairSourceIP := addr\<rparr> = ?st" using f(2) by (simp del: entry_state_sel)
        with ps have "pair_step now (dg_random d) p ?st = (st2, since, ch)" by simp
        with l l'(2,4) False f nz show ?thesis by (simp add: state_step_def Let_def flip: e)
      qed
      with l f ps show ?thesis by (intro that(2)) auto
    qed
  qed
qed

lemma pointers_ok_frame [simp]:
  "pointers_ok (s\<lparr>phase := q\<rparr>) = pointers_ok s" "pointers_ok (s\<lparr>sent := h\<rparr>) = pointers_ok s" "pointers_ok (to_idle s) = pointers_ok s"
  by (simp_all add: pointers_ok_def)

lemma state_step_frame:
  assumes "pointers_ok s" "s' = fst (state_step d p now s)"
  shows "base s' = base s" "sent s' = sent s" "pointers_ok s'"
    "k \<noteq> SenderPubkey p \<Longrightarrow> pointers s' k = pointers s k"
    "k \<noteq> SenderPubkey p \<Longrightarrow> pointers s k = Some a \<Longrightarrow> store s' a = store s a"
    "pointers s k = Some a \<Longrightarrow> pointers s' k = Some a" "pointers s' (SenderPubkey p) \<noteq> None"
proof -
  obtain b s1 x q where l: "LoadOrStore (SenderPubkey p) s = (b, s1)" and s': "s' = (put_object b x s1)\<lparr>phase := q\<rparr>"
    using assms(1) by (cases rule: state_step_cases [of s p d now]) (use assms(2) in \<open>auto simp: to_idle_def\<close>)
  note l' = LoadOrStore_cases [OF l assms(1)]
  from l'(4,6) show "base s' = base s" "sent s' = sent s" by (simp_all add: s')
  show "pointers_ok s'" using pointers_ok_put [OF l'(7)] by (simp add: s')
  show "k \<noteq> SenderPubkey p \<Longrightarrow> pointers s' k = pointers s k" using l'(1) by (simp add: s')
  show "k \<noteq> SenderPubkey p \<Longrightarrow> pointers s k = Some a \<Longrightarrow> store s' a = store s a"
    using l'(3) [of a] l'(8) [of k] by (auto simp: s')
  show "pointers s k = Some a \<Longrightarrow> pointers s' k = Some a" "pointers s' (SenderPubkey p) \<noteq> None"
    using l l'(1) by (auto simp: s' LoadOrStore_def split: option.splits)
qed

lemma send_step_cases [case_names failed sent]:
  obtains "fst (send_step c d p a i since ch s) = to_idle s" "\<And>b. build_reply c (base s) p i since ch \<noteq> Ok b"
  | b where "build_reply c (base s) p i since ch = Ok b"
      "fst (send_step c d p a i since ch s) = (to_idle (put_object a ((the (store s a))\<lparr>lastTxTime := dg_now_tx d\<rparr>) s))\<lparr>sent := sent s @ [(d, b)]\<rparr>"
  by (cases "build_reply c (base s) p i since ch") (auto simp: send_step_def)

lemma send_step_frame:
  assumes "s' = fst (send_step c d p a i since ch s)"
  shows "base s' = base s" "pointers s' = pointers s" "fresh s' = fresh s" "phase s' = Idle" "pointers_ok s \<Longrightarrow> pointers_ok s'"
    "a' \<noteq> a \<Longrightarrow> store s' a' = store s a'"
  by (cases rule: send_step_cases [of c d p a i since ch s]; use assms in \<open>auto simp: pointers_ok_def\<close>)+

lemma act_step_pointers_ok: "pointers_ok s \<Longrightarrow> pointers_ok (act_step c x s)"
proof (cases x)
  case (Arrive d)
  then show "pointers_ok s \<Longrightarrow> ?thesis" by (auto simp: act_step_def pointers_ok_def)
next
  case Proceed
  then show "pointers_ok s \<Longrightarrow> ?thesis"
    using state_step_frame(3) [OF _ refl] send_step_frame(5) [OF refl] by (cases "phase s") (auto simp: act_step_def)
qed (auto intro: map_step_pointers_ok)

lemma play_pointers_ok: "pointers_ok s \<Longrightarrow> pointers_ok (play c xs s)"
  by (rule race_run.run_invariant) (auto intro: act_step_pointers_ok)

lemma initial_sel [simp]:
  "base (initial r) = r" "pointers (initial r) = Map.empty" "store (initial r) = Map.empty" "phase (initial r) = Idle" "sent (initial r) = []"
  by (simp_all add: initial_def)

lemma pointers_ok_initial [simp]: "pointers_ok (initial r)"
  by (simp add: pointers_ok_def initial_def)

text \<open>The replies of a run of the atomic reflector, each with its datagram.\<close>

fun replies :: "ed25519 \<Rightarrow> event list \<Rightarrow> LinuxReflector \<Rightarrow> (datagram \<times> bytes) list" where
  "replies c [] r = []"
| "replies c (Dg d # es) r = sent_by d (snd (handle c d r)) @ replies c es (apply_event c (Dg d) r)"
| "replies c (e # es) r = replies c es (apply_event c e r)"

text \<open>Without interleaving the fine-grained reflector computes what the atomic one does.\<close>

lemma serial_exec:
  assumes "serial c s es xs" "pointers_ok s" "phase s = Idle"
  shows "abs_reflector (play c xs s) = exec c es (abs_reflector s) \<and> phase (play c xs s) = Idle
     \<and> sent (play c xs s) = sent s @ replies c es (abs_reflector s)"
  using assms
proof induction
  case (serial_dg d s es xs)
  from uninterrupted_handle [OF serial_dg.prems refl, of c d] serial_dg.IH play_pointers_ok [OF serial_dg.prems(1)]
  show ?case by (simp only: race_run.run_append exec.simps replies.simps apply_event_def event.case append_assoc)
next
  case (serial_reload visited s keys es xs)
  from reload_SetAuthorizedKeys [OF serial_reload.hyps(1) refl, of c keys] serial_reload.IH
    play_pointers_ok [OF serial_reload.prems(1)] serial_reload.prems play_Setter_other(1,2)
  show ?case by (simp add: race_run.run_append apply_event_def)
next
  case (serial_refresh os s es xs)
  have "abs_reflector (map_step (AssignOffsets os) s) = SetOffsets os (abs_reflector s)"
    by (simp add: abs_reflector_def SetOffsets_def)
  with serial_refresh.IH map_step_pointers_ok [OF serial_refresh.prems(1), of "AssignOffsets os"] serial_refresh.prems
  show ?case by (simp add: apply_event_def)
qed simp

section \<open>Challenges under any interleaving\<close>

text \<open>An entry of the history that answers the sender \<open>k\<close>.\<close>

definition to_sender :: "bytes \<Rightarrow> datagram \<times> bytes \<Rightarrow> bool" where
  "to_sender k h \<longleftrightarrow> (\<exists>p. UnmarshalProbePacket (dg_data (fst h)) = Ok p \<and> SenderPubkey p = k)"

text \<open>
  The nonce, the address and the transmit time of a sender state come from the last reply to the sender,
  which carries the nonce.
\<close>

definition issued_by :: "bytes \<Rightarrow> senderState \<Rightarrow> datagram \<Rightarrow> bytes \<Rightarrow> bool" where
  "issued_by k st d b \<longleftrightarrow> (\<exists>rep prt. UnmarshalReplyPacket b = Ok rep \<and> SenderPubkey (Probe rep) = k \<and> \<not> Challenged rep
     \<and> SinceLastRxNs rep = randomNonce (dg_random d) \<and> nonce st = randomNonce (dg_random d)
     \<and> dg_from d = SockaddrInet4 prt (pairSourceIP st) \<and> lastTxTime st = dg_now_tx d)"

definition issued :: "(datagram \<times> bytes) list \<Rightarrow> bytes \<Rightarrow> senderState \<Rightarrow> bool" where
  "issued hs k st \<longleftrightarrow> (\<exists>hs1 d b hs2. hs = hs1 @ (d, b) # hs2 \<and> issued_by k st d b \<and> (\<forall>h \<in> set hs2. \<not> to_sender k h))"

text \<open>What a challenged answer \<open>since\<close> to the probe \<open>p\<close> of the datagram \<open>d\<close> rests on.\<close>

definition backed :: "(datagram \<times> bytes) list \<Rightarrow> datagram \<Rightarrow> ProbePacket \<Rightarrow> uint64 \<Rightarrow> bool" where
  "backed hs d p since \<longleftrightarrow> (\<exists>hs1 d0 b0 hs2 rep0 prt0 prt addr. hs = hs1 @ (d0, b0) # hs2
     \<and> UnmarshalReplyPacket b0 = Ok rep0 \<and> SenderPubkey (Probe rep0) = SenderPubkey p \<and> \<not> Challenged rep0
     \<and> SinceLastRxNs rep0 = randomNonce (dg_random d0) \<and> SinceLastRxNs rep0 \<noteq> 0 \<and> presentedNonce p = SinceLastRxNs rep0
     \<and> dg_from d0 = SockaddrInet4 prt0 addr \<and> dg_from d = SockaddrInet4 prt addr
     \<and> (\<forall>h \<in> set hs2. \<not> to_sender (SenderPubkey p) h)
     \<and> (\<not> IsZero (dg_now_tx d0) \<longrightarrow> since = Sub (kernelTimestamp (dg_oob d) (dg_now_rx d)) (dg_now_tx d0)
          \<and> sint since \<le> sint stalePairTimeout))"

lemma issued_snoc: "issued hs k st \<Longrightarrow> \<not> to_sender k h \<Longrightarrow> issued (hs @ [h]) k st"
proof -
  assume "issued hs k st" "\<not> to_sender k h"
  then obtain hs1 d b hs2 where "hs = hs1 @ (d, b) # hs2" "issued_by k st d b" "\<forall>h \<in> set hs2. \<not> to_sender k h"
    unfolding issued_def by blast
  with \<open>\<not> to_sender k h\<close> show ?thesis
    unfolding issued_def by (intro exI [of _ hs1] exI [of _ d] exI [of _ b] exI [of _ "hs2 @ [h]"]) auto
qed

lemma issued_new: "issued_by k st d b \<Longrightarrow> issued (hs @ [(d, b)]) k st"
  unfolding issued_def by force

lemma issued_backed:
  assumes "issued hs (SenderPubkey p) st" "nonce st \<noteq> 0" "presentedNonce p = nonce st" "dg_from d = SockaddrInet4 prt (pairSourceIP st)"
    and "since = (if IsZero (lastTxTime st) then 0 else Sub (kernelTimestamp (dg_oob d) (dg_now_rx d)) (lastTxTime st))"
    and "\<not> IsZero (lastTxTime st) \<longrightarrow> sint (Sub (kernelTimestamp (dg_oob d) (dg_now_rx d)) (lastTxTime st)) \<le> sint stalePairTimeout"
  shows "backed hs d p since"
proof -
  from assms(1) obtain hs1 d0 b0 hs2 where h: "hs = hs1 @ (d0, b0) # hs2" "issued_by (SenderPubkey p) st d0 b0"
    "\<forall>h \<in> set hs2. \<not> to_sender (SenderPubkey p) h" unfolding issued_def by blast
  from h(2) obtain rep prt0 where i: "UnmarshalReplyPacket b0 = Ok rep" "SenderPubkey (Probe rep) = SenderPubkey p" "\<not> Challenged rep"
    "SinceLastRxNs rep = randomNonce (dg_random d0)" "nonce st = randomNonce (dg_random d0)"
    "dg_from d0 = SockaddrInet4 prt0 (pairSourceIP st)" "lastTxTime st = dg_now_tx d0" unfolding issued_by_def by blast
  show ?thesis
    unfolding backed_def
    by (rule exI [of _ hs1], rule exI [of _ d0], rule exI [of _ b0], rule exI [of _ hs2], rule exI [of _ rep],
        rule exI [of _ prt0], rule exI [of _ prt], rule exI [of _ "pairSourceIP st"]) (use h i assms in auto)
qed

text \<open>What \<open>Run\<close> holds in its local variables behind the pair step, and in general.\<close>

definition stepped_inv :: "shared \<Rightarrow> datagram \<Rightarrow> ProbePacket \<Rightarrow> nat \<Rightarrow> uint64 \<Rightarrow> bool \<Rightarrow> bool" where
  "stepped_inv s d p a since ch \<longleftrightarrow> UnmarshalProbePacket (dg_data d) = Ok p
     \<and> (\<exists>st prt. store s a = Some st \<and> dg_from d = SockaddrInet4 prt (pairSourceIP st)
         \<and> (nonce st \<noteq> 0 \<longrightarrow> nonce st = randomNonce (dg_random d) \<and> since = randomNonce (dg_random d) \<and> \<not> ch))
     \<and> (\<forall>a'. pointers s (SenderPubkey p) = Some a' \<longrightarrow> a' = a) \<and> (\<forall>k. pointers s k = Some a \<longrightarrow> k = SenderPubkey p)
     \<and> (ch \<longrightarrow> backed (sent s) d p since)"

definition phase_inv :: "shared \<Rightarrow> bool" where
  "phase_inv s = (case phase s of
      Idle \<Rightarrow> True
    | Checked d p now \<Rightarrow> UnmarshalProbePacket (dg_data d) = Ok p \<and> now = kernelTimestamp (dg_oob d) (dg_now_rx d)
    | Stepped d p now a i since ch \<Rightarrow> stepped_inv s d p a since ch)"

text \<open>Live nonces are issued, except the one of the object that \<open>Run\<close> is about to answer for.\<close>

definition live_inv :: "shared \<Rightarrow> bool" where
  "live_inv s \<longleftrightarrow> (\<forall>k a st. pointers s k = Some a \<longrightarrow> store s a = Some st \<longrightarrow> nonce st \<noteq> 0 \<longrightarrow>
     pairCount st = 1 \<and> (issued (sent s) k st \<or> (\<exists>d p now i since ch. phase s = Stepped d p now a i since ch)))"

definition sent_inv :: "shared \<Rightarrow> bool" where
  "sent_inv s \<longleftrightarrow> (\<forall>hs d b hs' rep. sent s = hs @ (d, b) # hs' \<longrightarrow> UnmarshalReplyPacket b = Ok rep \<longrightarrow>
     UnmarshalProbePacket (dg_data d) = Ok (Probe rep) \<and> (Challenged rep \<longrightarrow> backed hs d (Probe rep) (SinceLastRxNs rep)))"

definition race_inv :: "ed25519 \<Rightarrow> shared \<Rightarrow> bool" where
  "race_inv c s \<longleftrightarrow> reflector_ok c (base s) \<and> pointers_ok s \<and> phase_inv s \<and> live_inv s \<and> sent_inv s"

definition good_act :: "act \<Rightarrow> bool" where
  "good_act x = (case x of Setter (AssignOffsets os) \<Rightarrow> wf_offsets os | _ \<Rightarrow> True)"

lemma race_inv_setter:
  assumes "race_inv c s" "good_act (Setter q)"
  shows "race_inv c (map_step q s)"
proof -
  have p: "pointers (map_step q s) k = Some a \<Longrightarrow> pointers s k = Some a" for k a
    by (auto simp: map_step_key split: if_splits)
  have "phase_inv s" "live_inv s" using assms(1) by (simp_all add: race_inv_def)
  then have "phase_inv (map_step q s)" by (cases "phase s") (auto simp: phase_inv_def stepped_inv_def dest: p)
  moreover have "live_inv (map_step q s)" using \<open>live_inv s\<close> p unfolding live_inv_def by (metis map_step_config(4,5,6))
  moreover have "reflector_ok c (base (map_step q s))"
    using assms by (cases q) (auto simp: race_inv_def good_act_def reflector_ok_def)
  ultimately show ?thesis using assms(1) map_step_pointers_ok by (auto simp: race_inv_def sent_inv_def)
qed

lemma race_inv_arrive:
  assumes "race_inv c s" "phase s = Idle"
  shows "race_inv c (fst (check_step d s))"
proof -
  have "phase_inv (fst (check_step d s))" using assms(2)
    by (auto simp: check_step_def phase_inv_def split: result.splits)
  with assms show ?thesis by (auto simp: race_inv_def live_inv_def sent_inv_def pointers_ok_def)
qed

lemma current_live:
  assumes "race_inv c s" "\<And>d p now a i since ch. phase s \<noteq> Stepped d p now a i since ch" "nonce (current_state (abs_reflector s) k) \<noteq> 0"
  shows "issued (sent s) k (current_state (abs_reflector s) k) \<and> pairCount (current_state (abs_reflector s) k) = 1"
proof -
  let ?st = "current_state (abs_reflector s) k"
  have "senderStates (abs_reflector s) k = Some ?st" by (rule current_state_nonce [OF assms(3)])
  then obtain a where "pointers s k = Some a" "store s a = Some ?st"
    by (auto simp: abs_reflector_def map_comp_def split: option.splits)
  with assms show ?thesis unfolding race_inv_def live_inv_def by blast
qed

lemma live_inv_state:
  assumes inv: "race_inv c s" and ph: "phase s = Checked d p now" and s': "s' = fst (state_step d p now s)"
    and k: "pointers s' (SenderPubkey p) = Some a" "store s' a = Some st"
    and live: "nonce st \<noteq> 0 \<Longrightarrow> pairCount st = 1 \<and> (issued (sent s') (SenderPubkey p) st \<or> (\<exists>d p now i since ch. phase s' = Stepped d p now a i since ch))"
  shows "live_inv s'"
  unfolding live_inv_def
proof (intro allI impI)
  fix k' a' st' assume h: "pointers s' k' = Some a'" "store s' a' = Some st'" "nonce st' \<noteq> 0"
  have ok: "pointers_ok s" using inv by (simp add: race_inv_def)
  show "pairCount st' = 1 \<and> (issued (sent s') k' st' \<or> (\<exists>d p now i since ch. phase s' = Stepped d p now a' i since ch))"
  proof (cases "k' = SenderPubkey p")
    case True
    with h k live show ?thesis by simp
  next
    case False
    with h state_step_frame(4,5) [OF ok s'] have "pointers s k' = Some a'" "store s a' = Some st'" by auto
    with inv ph h(3) state_step_frame(2) [OF ok s'] show ?thesis by (simp add: race_inv_def live_inv_def)
  qed
qed

lemma race_inv_state:
  assumes inv: "race_inv c s" and ph: "phase s = Checked d p now"
  shows "race_inv c (fst (state_step d p now s))"
proof -
  define s' where "s' = fst (state_step d p now s)"
  have ok: "pointers_ok s" and u: "UnmarshalProbePacket (dg_data d) = Ok p" and now: "now = kernelTimestamp (dg_oob d) (dg_now_rx d)"
    using inv ph by (auto simp: race_inv_def phase_inv_def)
  note fr = state_step_frame [OF ok s'_def]
  let ?k = "SenderPubkey p"
  note cur = current_live [OF inv, of ?k, unfolded ph, simplified]
  have entry: "issued (sent s') ?k st \<and> pairCount st = 1" if "st = current_state (abs_reflector s) ?k \<or> st = entry_state (abs_reflector s) now ?k"
    "nonce st \<noteq> 0" for st
    using that cur entry_state_kept [of "abs_reflector s" now ?k] fr(2) by auto
  have "phase_inv s' \<and> live_inv s'" using ok
  proof (cases rule: state_step_cases [of s p d now])
    case (quiet a s1 st)
    note l = LoadOrStore_cases [OF quiet(1) ok]
    have e: "s' = to_idle (put_object a st s1)" using quiet(2) s'_def by simp
    have "live_inv s'" by (rule live_inv_state [OF inv ph s'_def, of a st]) (use e l entry [OF quiet(3)] in auto)
    with e show ?thesis by (simp add: phase_inv_def)
  next
    case (stepped a s1 st prt addr st2 since ch)
    note l = LoadOrStore_cases [OF stepped(1) ok] and ps = pair_step_cases [OF stepped(5)]
    have e: "s' = (put_object a st2 s1)\<lparr>phase := Stepped d p now a (pairCount st = 0) since ch\<rparr>" using stepped(6) s'_def by simp
    have "live_inv s'" by (rule live_inv_state [OF inv ph s'_def, of a st2]) (use e l ps in \<open>auto split: if_splits\<close>)
    moreover have "backed (sent s') d p since" if ch
    proof -
      from ps that have n: "nonce st \<noteq> 0" "presentedNonce p = nonce st" "pairCount st \<noteq> 0"
        "since = (if IsZero (lastTxTime st) then 0 else Sub now (lastTxTime st))" by (auto split: if_splits)
      have c: "st = current_state (abs_reflector s) ?k" using n(1) stepped(2) entry_state_kept by blast
      have "\<not> IsZero (lastTxTime st) \<longrightarrow> sint (Sub now (lastTxTime st)) \<le> sint stalePairTimeout"
      proof -
        have "pairCount (current_state (abs_reflector s) ?k) = 1" using entry [OF disjI1 [OF refl]] n(1) unfolding c by blast
        from entry_state_fresh [OF _ this, of now] n(1) show ?thesis unfolding stepped(2) by simp
      qed
      moreover have "issued (sent s') ?k st" using entry stepped(2) n(1) by blast
      moreover have "dg_from d = SockaddrInet4 prt (pairSourceIP st)" using stepped(3,4) n(3) by simp
      ultimately show ?thesis using issued_backed n now by metis
    qed
    moreover have "k' = ?k" if "pointers s' k' = Some a" for k' using pointers_okD(4) [OF fr(3) _ that, of ?k] e l(1) by simp
    moreover have "store s' a = Some st2" "dg_from d = SockaddrInet4 prt (pairSourceIP st2)" "pointers s' ?k = Some a"
      "nonce st2 \<noteq> 0 \<longrightarrow> nonce st2 = randomNonce (dg_random d) \<and> since = randomNonce (dg_random d) \<and> \<not> ch"
      using e l(1) ps stepped(3) by (auto split: if_splits)
    ultimately have "stepped_inv s' d p a since ch" using u unfolding stepped_inv_def by (metis option.inject)
    with \<open>live_inv s'\<close> e show ?thesis by (simp add: phase_inv_def)
  qed
  with inv fr show ?thesis unfolding s'_def [symmetric] by (simp add: race_inv_def sent_inv_def)
qed

lemma sent_inv_snoc:
  assumes "sent_inv s" "sent s' = sent s @ [(d, b)]" "UnmarshalReplyPacket b = Ok rep" "UnmarshalProbePacket (dg_data d) = Ok (Probe rep)"
    and "Challenged rep \<Longrightarrow> backed (sent s) d (Probe rep) (SinceLastRxNs rep)"
  shows "sent_inv s'"
  unfolding sent_inv_def
proof (intro allI impI)
  fix hs d' b' hs' rep' assume h: "sent s' = hs @ (d', b') # hs'" "UnmarshalReplyPacket b' = Ok rep'"
  from h(1) assms(2) consider "hs' = []" "hs = sent s" "d' = d" "b' = b" | hs2 where "sent s = hs @ (d', b') # hs2"
    by (cases hs' rule: rev_cases) auto
  then show "UnmarshalProbePacket (dg_data d') = Ok (Probe rep') \<and> (Challenged rep' \<longrightarrow> backed hs d' (Probe rep') (SinceLastRxNs rep'))"
  proof cases
    case 1
    with assms h(2) show ?thesis by auto
  next
    case 2
    with assms(1) h(2) show ?thesis unfolding sent_inv_def by blast
  qed
qed

lemma race_inv_send:
  assumes inv: "race_inv c s" and ph: "phase s = Stepped d p now a i since ch"
  shows "race_inv c (fst (send_step c d p a i since ch s))"
proof -
  define s' where "s' = fst (send_step c d p a i since ch s)"
  note fr = send_step_frame [OF s'_def]
  from inv ph have stp: "stepped_inv s d p a since ch" by (simp add: race_inv_def phase_inv_def)
  then obtain st prt where st: "store s a = Some st" and frm: "dg_from d = SockaddrInet4 prt (pairSourceIP st)"
    and n: "nonce st \<noteq> 0 \<longrightarrow> nonce st = randomNonce (dg_random d) \<and> since = randomNonce (dg_random d) \<and> \<not> ch"
    unfolding stepped_inv_def by (elim conjE exE) 
  from stp have u: "UnmarshalProbePacket (dg_data d) = Ok p" and bk: "ch \<longrightarrow> backed (sent s) d p since"
    and own: "\<And>a'. pointers s (SenderPubkey p) = Some a' \<Longrightarrow> a' = a" "\<And>k. pointers s k = Some a \<Longrightarrow> k = SenderPubkey p"
    unfolding stepped_inv_def by blast+
  have ok: "reflector_ok c (base s)" and wf: "wf_probe p" and live: "live_inv s" using inv u probe_wire.dec_iff by (auto simp: race_inv_def)
  obtain b where b: "build_reply c (base s) p i since ch = Ok b" using build_reply_ok [OF ok wf] by metis
  obtain rep where rep: "UnmarshalReplyPacket b = Ok rep" "Probe rep = p" "SinceLastRxNs rep = since" "Challenged rep = ch"
    by (rule sent_reply [OF ok wf b]) blast
  have s': "store s' = (store s)(a \<mapsto> st\<lparr>lastTxTime := dg_now_tx d\<rparr>)" "sent s' = sent s @ [(d, b)]"
    using b st by (auto simp: s'_def send_step_def)
  have "live_inv s'" unfolding live_inv_def
  proof (intro allI impI)
    fix k' a' st' assume h: "pointers s' k' = Some a'" "store s' a' = Some st'" "nonce st' \<noteq> 0"
    have "pairCount st' = 1 \<and> issued (sent s') k' st'"
    proof (cases "a' = a")
      case True
      with h s'(1) have e: "st' = st\<lparr>lastTxTime := dg_now_tx d\<rparr>" "nonce st \<noteq> 0" "pointers s k' = Some a" using fr(2) by auto
      with live st have "pairCount st = 1" unfolding live_inv_def by blast
      moreover have "issued_by k' st' d b"
        unfolding issued_by_def using own(2) [OF e(3)] e rep n frm by (intro exI [of _ rep] exI [of _ prt]) auto
      ultimately show ?thesis using issued_new e(1) s'(2) by simp
    next
      case False
      with h s'(1) fr(2) have e: "store s a' = Some st'" "pointers s k' = Some a'" by auto
      with own(1) False have "k' \<noteq> SenderPubkey p" by auto
      then have "\<not> to_sender k' (d, b)" using u by (simp add: to_sender_def)
      moreover have "pairCount st' = 1 \<and> issued (sent s) k' st'" using live e h(3) ph False unfolding live_inv_def by fastforce
      ultimately show ?thesis using issued_snoc s'(2) by simp
    qed
    then show "pairCount st' = 1 \<and> (issued (sent s') k' st' \<or> (\<exists>d p now i since ch. phase s' = Stepped d p now a' i since ch))" by blast
  qed
  moreover have "sent_inv s'"
    by (rule sent_inv_snoc [of s s' d b rep]) (use inv s'(2) rep u bk in \<open>auto simp: race_inv_def\<close>)
  moreover have "phase_inv s'" using fr(4) by (simp add: phase_inv_def)
  ultimately show ?thesis using inv fr unfolding s'_def [symmetric] by (simp add: race_inv_def)
qed

lemma race_inv_act: "race_inv c s \<Longrightarrow> good_act x \<Longrightarrow> race_inv c (act_step c x s)"
proof (cases x)
  case (Arrive d)
  then show "race_inv c s \<Longrightarrow> ?thesis" using race_inv_arrive by (auto simp: act_step_def)
next
  case Proceed
  then show "race_inv c s \<Longrightarrow> ?thesis" using race_inv_state race_inv_send by (cases "phase s") (auto simp: act_step_def)
qed (auto intro: race_inv_setter)

lemma race_inv_play: "race_inv c s \<Longrightarrow> \<forall>x \<in> set xs. good_act x \<Longrightarrow> race_inv c (play c xs s)"
  by (rule race_run.run_invariant) (auto intro: race_inv_act)

lemma race_inv_initial: "reflector_ok c r \<Longrightarrow> race_inv c (initial r)"
  by (simp add: race_inv_def phase_inv_def live_inv_def sent_inv_def)

lemma abs_initial: "senderStates r = Map.empty \<Longrightarrow> abs_reflector (initial r) = r"
  by (simp add: abs_reflector_def)

section \<open>Sender states under any interleaving\<close>

text \<open>Every sender object, detached or not, is in order.\<close>

definition objects_inv :: "duration \<Rightarrow> shared \<Rightarrow> bool" where
  "objects_inv iv s \<longleftrightarrow> pointers_ok s \<and> verifyInterval (base s) = iv
     \<and> (\<forall>a st. store s a = Some st \<longrightarrow> sender_inv iv st)
     \<and> (\<forall>d p now a i since ch. phase s = Stepped d p now a i since ch \<longrightarrow> store s a \<noteq> None)"

lemma objects_inv_current:
  "objects_inv iv s \<Longrightarrow> sender_inv iv (current_state (abs_reflector s) k)"
  by (auto simp: objects_inv_def current_state_def abs_reflector_def map_comp_def split: option.splits)

lemma objects_inv_state:
  assumes inv: "objects_inv iv s"
  shows "objects_inv iv (fst (state_step d p now s))"
proof -
  define s' where "s' = fst (state_step d p now s)"
  have ok: "pointers_ok s" and iv: "verifyInterval (abs_reflector s) = iv" using inv by (simp_all add: objects_inv_def)
  note fr = state_step_frame [OF ok s'_def] and cur = objects_inv_current [OF inv, of "SenderPubkey p"]
  have entry: "sender_inv iv (entry_state (abs_reflector s) now (SenderPubkey p))
      \<and> (sint iv > 0 \<longrightarrow> pairCount (entry_state (abs_reflector s) now (SenderPubkey p)) < 2)"
    using resets_inv [of "abs_reflector s"] iv cur by (simp add: entry_state_def)
  from ok obtain a s1 x q where "LoadOrStore (SenderPubkey p) s = (a, s1)" "s' = (put_object a x s1)\<lparr>phase := q\<rparr>"
    "sender_inv iv x" "\<forall>d p now a' i since ch. q = Stepped d p now a' i since ch \<longrightarrow> a' = a"
  proof (cases rule: state_step_cases [of s p d now])
    case (quiet a s1 st)
    with cur entry that [of a s1 Idle st] show ?thesis by (auto simp: s'_def to_idle_def)
  next
    case (stepped a s1 st prt addr st2 since ch)
    with pair_step_inv(1) [OF stepped(5)] entry that [of a s1 _ st2] show ?thesis by (simp add: s'_def)
  qed
  moreover from LoadOrStore_cases(3) [OF this(1) ok] have "a' \<noteq> a \<Longrightarrow> store s1 a' = store s a'" for a' .
  ultimately have "store s' a' = Some st \<Longrightarrow> sender_inv iv st"
    "phase s' = Stepped d' p' now' a' i since ch \<Longrightarrow> store s' a' \<noteq> None" for a' st d' p' now' i since ch
    using inv by (auto simp: objects_inv_def split: if_splits)
  with fr inv show ?thesis unfolding s'_def [symmetric] by (auto simp: objects_inv_def)
qed

lemma objects_inv_send:
  assumes "objects_inv iv s" "phase s = Stepped d p now a i since ch"
  shows "objects_inv iv (fst (send_step c d p a i since ch s))"
  by (cases rule: send_step_cases [of c d p a i since ch s])
    (use assms in \<open>auto simp: objects_inv_def pointers_ok_def sender_inv_def\<close>)

lemma objects_inv_act: "objects_inv iv s \<Longrightarrow> objects_inv iv (act_step c x s)"
proof (cases x)
  case (Arrive d)
  then show "objects_inv iv s \<Longrightarrow> ?thesis"
    by (auto simp: act_step_def objects_inv_def pointers_ok_def check_step_def split: result.splits if_splits)
next
  case Proceed
  then show "objects_inv iv s \<Longrightarrow> ?thesis"
    using objects_inv_state objects_inv_send by (cases "phase s") (auto simp: act_step_def)
qed (auto simp: objects_inv_def map_step_pointers_ok)

lemma act_step_auth:
  assumes "pointers_ok s" "\<And>q. x \<noteq> Setter q"
  shows "authorizedKeys (base (act_step c x s)) = authorizedKeys (base s)"
  using assms state_step_frame(1) [OF assms(1) refl] send_step_frame(1) [OF refl]
  by (cases x; cases "phase s") (auto simp: act_step_def)

text \<open>A sender that is off the list and has state: one of two steps must have made it so.\<close>

definition stray :: "bytes \<Rightarrow> shared \<Rightarrow> bool" where
  "stray k s \<longleftrightarrow> pointers s k \<noteq> None \<and> authorizedKeys (base s) k = None"

definition makes_stray :: "bytes \<Rightarrow> act \<Rightarrow> shared \<Rightarrow> bool" where
  "makes_stray k x s \<longleftrightarrow> x = Setter (DeleteKey k)
     \<or> x = Proceed \<and> authorizedKeys (base s) k = None \<and> (\<exists>d p now. phase s = Checked d p now \<and> SenderPubkey p = k)"

lemma stray_step:
  assumes "pointers_ok s" "stray k (act_step c x s)"
  shows "makes_stray k x s \<or> stray k s \<and> x \<noteq> Setter (DeleteState k)"
proof (cases x)
  case (Arrive d)
  with assms show ?thesis by (auto simp: stray_def act_step_def split: if_splits)
next
  case Proceed
  have auth: "authorizedKeys (base s) k = None" using assms act_step_auth [OF assms(1), of x c] Proceed by (simp add: stray_def)
  show ?thesis
  proof (cases "phase s")
    case (Checked d p now)
    with assms auth Proceed state_step_frame(4) [OF assms(1) refl, of k p d now] show ?thesis
      by (cases "k = SenderPubkey p") (auto simp: stray_def makes_stray_def act_step_def)
  next
    case (Stepped d p now a i since ch)
    with assms Proceed auth send_step_frame(2) [OF refl] show ?thesis by (simp add: stray_def act_step_def)
  qed (use assms Proceed in \<open>simp add: act_step_def\<close>)
qed (use assms in \<open>auto simp: stray_def makes_stray_def map_step_key split: if_splits\<close>)

lemma stray_origin:
  assumes "stray k (play c xs (initial r))"
  shows "\<exists>xs1 x xs2. xs = xs1 @ x # xs2 \<and> makes_stray k x (play c xs1 (initial r)) \<and> Setter (DeleteState k) \<notin> set xs2"
proof -
  have "\<exists>xs1 x xs2. xs = xs1 @ x # xs2 \<and> makes_stray k x (play c xs1 (initial r))
     \<and> (\<forall>ys x' zs. xs2 = ys @ x' # zs \<longrightarrow> x' \<noteq> Setter (DeleteState k))"
    by (rule race_run.since_last [where P = "stray k" and R = "\<lambda>x s. x \<noteq> Setter (DeleteState k)"])
      (use assms stray_step play_pointers_ok [OF pointers_ok_initial] in \<open>auto simp: stray_def\<close>)
  then show ?thesis by (metis in_set_conv_decomp)
qed

section \<open>Properties\<close>

text \<open>
  C11 (\<open>race_challenge\<close>). What a \<open>Challenged\<close> reply proves holds under every interleaving of the goroutines.
  However reloads and refreshes are scheduled between and inside datagrams, operation by operation: a reply with
  the challenged bit was preceded by an unchallenged reply to the same sender at the same IPv4 address,
  which carried the nonce drawn for it, not zero, that the challenged probe presents; no reply went to this sender
  in between; and unless the clock read the zero time, the interval in the reply is the time since that first
  reply was sent, at most \<open>stalePairTimeout\<close>.
\<close>

theorem race_challenge:
  assumes "reflector_ok c r0" "\<forall>x \<in> set xs. good_act x"
    and "sent (play c xs (initial r0)) = hs @ (d, b) # hs'" "UnmarshalReplyPacket b = Ok rep" "Challenged rep"
  shows "\<exists>hs1 d0 b0 hs2 rep0 prt0 prt addr. hs = hs1 @ (d0, b0) # hs2
     \<and> UnmarshalReplyPacket b0 = Ok rep0 \<and> SenderPubkey (Probe rep0) = SenderPubkey (Probe rep) \<and> \<not> Challenged rep0
     \<and> SinceLastRxNs rep0 = randomNonce (dg_random d0) \<and> SinceLastRxNs rep0 \<noteq> 0
     \<and> presentedNonce (Probe rep) = SinceLastRxNs rep0
     \<and> dg_from d0 = SockaddrInet4 prt0 addr \<and> dg_from d = SockaddrInet4 prt addr
     \<and> (\<forall>h \<in> set hs2. \<not> to_sender (SenderPubkey (Probe rep)) h)
     \<and> (\<not> IsZero (dg_now_tx d0) \<longrightarrow>
          SinceLastRxNs rep = Sub (kernelTimestamp (dg_oob d) (dg_now_rx d)) (dg_now_tx d0)
          \<and> sint (SinceLastRxNs rep) \<le> sint stalePairTimeout)"
proof -
  have "sent_inv (play c xs (initial r0))"
    using race_inv_play [OF race_inv_initial [OF assms(1)] assms(2)] by (simp add: race_inv_def)
  with assms(3-5) have "backed hs d (Probe rep) (SinceLastRxNs rep)" unfolding sent_inv_def by blast
  then show ?thesis unfolding backed_def .
qed

theorem race_challenge_witness:
  "\<exists>xs hs d b rep d0 b0. sent (play toy_ed25519 xs (initial sample_reflector)) = hs @ [(d, b)]
     \<and> UnmarshalReplyPacket b = Ok rep \<and> Challenged rep
     \<and> (d0, b0) \<in> set hs \<and> presentedNonce (Probe rep) = randomNonce (dg_random d0)"
proof -
  let ?d0 = "sample_dg 1 2 1000000" and ?d1 = "sample_dg 0 5 2000000"
  obtain r1 r2 rep0 rep1 where
    h: "handle toy_ed25519 ?d0 sample_reflector = (r1, Sent (reply_bytes rep0) (dg_from ?d0))"
      "handle toy_ed25519 ?d1 r1 = (r2, Sent (reply_bytes rep1) (dg_from ?d1))"
      "UnmarshalReplyPacket (reply_bytes rep1) = Ok rep1" "Challenged rep1"
    using sample_pair sample_elapsed by (auto simp: stalePairTimeout_def)
  let ?xs = "[Arrive ?d0, Proceed, Proceed] @ [Arrive ?d1, Proceed, Proceed] @ []"
  have "serial toy_ed25519 (initial sample_reflector) [Dg ?d0, Dg ?d1] ?xs"
    by (intro serial_dg serial_nil)
  from serial_exec [OF this] have s: "sent (play toy_ed25519 ?xs (initial sample_reflector)) = [(?d0, reply_bytes rep0)] @ (?d1, reply_bytes rep1) # []"
    using h by (simp add: abs_initial apply_event_def sent_by_def)
  have "\<forall>x \<in> set ?xs. good_act x" by (simp add: good_act_def)
  from race_challenge [OF sample_reflector_ok this s h(3,4)] obtain hs1 d0 b0 hs2 where
    "[(?d0, reply_bytes rep0)] = hs1 @ (d0, b0) # hs2" "presentedNonce (Probe rep1) = randomNonce (dg_random d0)" by metis
  then have "(d0, b0) \<in> set [(?d0, reply_bytes rep0)]" "presentedNonce (Probe rep1) = randomNonce (dg_random d0)"
    by (metis in_set_conv_decomp)+
  with s h(3,4) show ?thesis by blast
qed

text \<open>
  C12 (\<open>race_serial\<close>). The atomic model is the fine-grained one without interleaving: when every datagram
  and every setter runs to its end before the next begins, and \<open>Range\<close> visits the stored keys in whatever order,
  the reflector with objects behind pointers reaches the state that \<open>exec\<close> computes and sends the same replies.
\<close>

theorem race_serial:
  assumes "serial c (initial r0) es xs" "senderStates r0 = Map.empty"
  shows "abs_reflector (play c xs (initial r0)) = exec c es r0 \<and> sent (play c xs (initial r0)) = replies c es r0"
  using serial_exec [OF assms(1)] assms(2) by (simp add: abs_initial)

lemma sample_dom: "set [zeros 32] = dom (authorizedKeys (base (initial sample_reflector)))"
  by (simp add: sample_reflector_def)

theorem race_serial_witness:
  "\<exists>xs. serial toy_ed25519 (initial sample_reflector) [Reload [zeros 32], Dg (sample_dg 1 2 1000000)] xs
     \<and> sent (play toy_ed25519 xs (initial sample_reflector))
       = replies toy_ed25519 [Reload [zeros 32], Dg (sample_dg 1 2 1000000)] sample_reflector"
proof -
  let ?xs = "map Setter (reload_ops [zeros 32] [zeros 32]) @ [Arrive (sample_dg 1 2 1000000), Proceed, Proceed] @ []"
  have s: "serial toy_ed25519 (initial sample_reflector) [Reload [zeros 32], Dg (sample_dg 1 2 1000000)] ?xs"
    by (intro serial_reload serial_dg serial_nil sample_dom)
  from race_serial [OF s sample_idle(1)] s show ?thesis by blast
qed

text \<open>The map operations in a schedule.\<close>

fun setters :: "act list \<Rightarrow> map_op list" where
  "setters [] = []"
| "setters (Setter q # xs) = q # setters xs"
| "setters (x # xs) = setters xs"

lemma act_step_pointer:
  assumes "pointers_ok s" "\<And>q. x \<noteq> Setter q" "pointers s k = Some a"
  shows "pointers (act_step c x s) k = Some a"
  using assms state_step_frame(6) [OF assms(1) refl] send_step_frame(2) [OF refl]
  by (cases x; cases "phase s") (auto simp: act_step_def)

lemma reload_prefix:
  assumes "pointers_ok s"
  shows "authorizedKeys (base s) k \<noteq> None \<Longrightarrow> DeleteKey k \<notin> set (setters xs) \<Longrightarrow> authorizedKeys (base (play c xs s)) k \<noteq> None"
    and "authorizedKeys (base s) k = None \<Longrightarrow> StoreKey k \<notin> set (setters xs) \<Longrightarrow> authorizedKeys (base (play c xs s)) k = None"
    and "pointers s k = Some a \<Longrightarrow> DeleteState k \<notin> set (setters xs) \<Longrightarrow> pointers (play c xs s) k = Some a"
proof -
  have "(authorizedKeys (base s) k \<noteq> None \<longrightarrow> DeleteKey k \<notin> set (setters xs) \<longrightarrow> authorizedKeys (base (play c xs s)) k \<noteq> None)
    \<and> (authorizedKeys (base s) k = None \<longrightarrow> StoreKey k \<notin> set (setters xs) \<longrightarrow> authorizedKeys (base (play c xs s)) k = None)
    \<and> (pointers s k = Some a \<longrightarrow> DeleteState k \<notin> set (setters xs) \<longrightarrow> pointers (play c xs s) k = Some a)"
    using assms
  proof (induction xs arbitrary: s)
    case (Cons x xs)
    note IH = Cons.IH [OF act_step_pointers_ok [OF Cons.prems], of c x]
    show ?case
    proof (cases "\<exists>q. x = Setter q")
      case True
      then obtain q where "x = Setter q" by blast
      with IH show ?thesis by (auto simp: map_step_key split: if_splits)
    next
      case False
      then have "setters (x # xs) = setters xs" by (cases x) auto
      with IH False act_step_auth [OF Cons.prems, of x c] act_step_pointer [OF Cons.prems, of x k a c] show ?thesis by auto
    qed
  qed simp
  then show "authorizedKeys (base s) k \<noteq> None \<Longrightarrow> DeleteKey k \<notin> set (setters xs) \<Longrightarrow> authorizedKeys (base (play c xs s)) k \<noteq> None"
    "authorizedKeys (base s) k = None \<Longrightarrow> StoreKey k \<notin> set (setters xs) \<Longrightarrow> authorizedKeys (base (play c xs s)) k = None"
    "pointers s k = Some a \<Longrightarrow> DeleteState k \<notin> set (setters xs) \<Longrightarrow> pointers (play c xs s) k = Some a" by blast+
qed

text \<open>
  C16 (\<open>reload_no_gap\<close>). A reload never opens a gap. At any moment of a reload, with any steps of
  the receiver in between: a sender on both the old and the new list is authorized and keeps its sender state, that is
  its open pair; a sender on neither list is not authorized.
\<close>

theorem reload_no_gap:
  assumes "setters xs @ rest = reload_ops keys visited" "s = play c ys (initial r0)"
  shows "(authorizedKeys (base s) k \<noteq> None \<and> k \<in> set keys \<longrightarrow> authorizedKeys (base (play c xs s)) k \<noteq> None
       \<and> (\<forall>a. pointers s k = Some a \<longrightarrow> pointers (play c xs s) k = Some a))
    \<and> (authorizedKeys (base s) k = None \<and> k \<notin> set keys \<longrightarrow> authorizedKeys (base (play c xs s)) k = None)"
proof -
  have ok: "pointers_ok s" using assms(2) by (simp add: play_pointers_ok)
  have sub: "set (setters xs) \<subseteq> set (reload_ops keys visited)" unfolding assms(1) [symmetric] by auto
  have "k \<in> set keys \<Longrightarrow> DeleteKey k \<notin> set (setters xs) \<and> DeleteState k \<notin> set (setters xs)"
    "k \<notin> set keys \<Longrightarrow> StoreKey k \<notin> set (setters xs)" using sub set_reload_ops by blast+
  with reload_prefix [OF ok] show ?thesis by blast
qed

theorem reload_no_gap_witness:
  "authorizedKeys (base (play toy_ed25519 [Arrive (sample_dg 1 2 1000000), Setter (StoreKey (zeros 32)), Proceed]
     (play toy_ed25519 [] (initial sample_reflector)))) (zeros 32) \<noteq> None"
  using reload_no_gap [of "[Arrive (sample_dg 1 2 1000000), Setter (StoreKey (zeros 32)), Proceed]" "[]" "[zeros 32]" "[zeros 32]"
      "play toy_ed25519 [] (initial sample_reflector)" toy_ed25519 "[]" sample_reflector "zeros 32", OF _ refl]
  by (simp add: reload_ops_def)

text \<open>Whether \<open>Run\<close> is at work on a probe of the sender.\<close>

fun in_flight :: "bytes \<Rightarrow> phase \<Rightarrow> bool" where
  "in_flight k Idle = False"
| "in_flight k (Checked d p now) = (SenderPubkey p = k)"
| "in_flight k (Stepped d p now a i since ch) = (SenderPubkey p = k)"

definition replies_to :: "bytes \<Rightarrow> shared \<Rightarrow> nat" where
  "replies_to k s = length (filter (to_sender k) (sent s))"

definition decoded :: "phase \<Rightarrow> bool" where
  "decoded ph = (case ph of Idle \<Rightarrow> True | Checked d p _ \<Rightarrow> UnmarshalProbePacket (dg_data d) = Ok p
     | Stepped d p _ _ _ _ _ \<Rightarrow> UnmarshalProbePacket (dg_data d) = Ok p)"

lemma decoded_step:
  assumes "pointers_ok s" "decoded (phase s)"
  shows "decoded (phase (act_step c x s))"
proof (cases x)
  case (Arrive d)
  with assms show ?thesis by (auto simp: act_step_def check_step_def decoded_def split: result.splits)
next
  case Proceed
  show ?thesis
  proof (cases "phase s")
    case (Checked d p now)
    from assms(1) show ?thesis
      by (cases rule: state_step_cases [of s p d now]) (use assms(2) Proceed Checked in \<open>auto simp: act_step_def decoded_def\<close>)
  qed (use assms Proceed send_step_frame(4) [OF refl] in \<open>auto simp: act_step_def decoded_def\<close>)
qed (use assms in simp)

text \<open>The replies to a sender that is not authorized, with the one in flight, do not become more.\<close>

lemma removed_step:
  assumes ok: "pointers_ok s" "decoded (phase s)" and gone: "authorizedKeys (base s) k = None"
    and f: "f = (\<lambda>t. replies_to k t + (if in_flight k (phase t) then 1 else 0))"
  shows "f (act_step c x s) \<le> f s"
proof (cases x)
  case (Arrive d)
  then show ?thesis using gone
    by (cases "phase s") (auto simp: f act_step_def check_step_def replies_to_def split: result.splits)
next
  case Proceed
  show ?thesis
  proof (cases "phase s")
    case (Checked d p now)
    have "in_flight k (phase (fst (state_step d p now s))) \<longrightarrow> SenderPubkey p = k" using ok(1)
      by (cases rule: state_step_cases [of s p d now]) auto
    with Proceed Checked state_step_frame(2) [OF ok(1) refl] show ?thesis by (simp add: f act_step_def replies_to_def)
  next
    case (Stepped d p now a i since ch)
    have "UnmarshalProbePacket (dg_data d) = Ok p" using ok(2) Stepped by (simp add: decoded_def)
    then have "replies_to k (fst (send_step c d p a i since ch s)) \<le> replies_to k s + (if SenderPubkey p = k then 1 else 0)"
      by (cases rule: send_step_cases [of c d p a i since ch s]) (auto simp: replies_to_def to_sender_def)
    with Proceed Stepped send_step_frame(4) [OF refl] show ?thesis by (simp add: f act_step_def)
  qed (use Proceed in \<open>simp add: act_step_def\<close>)
next
  case (Setter q)
  then show ?thesis by (simp add: f replies_to_def)
qed

text \<open>
  C15 (\<open>race_removed_sender\<close>). Once a sender's key has been deleted from the allowlist, it gets at most one
  more reply, and only if \<open>Run\<close> had already let a probe of it pass, whatever happens in whatever order, as long
  as the key is not stored again.
\<close>

theorem race_removed_sender:
  assumes "s = play c ys (initial r0)" "authorizedKeys (base s) k = None" "StoreKey k \<notin> set (setters xs)"
  shows "replies_to k (play c xs s) \<le> replies_to k s + (if in_flight k (phase s) then 1 else 0)"
proof -
  define f where "f = (\<lambda>t. replies_to k t + (if in_flight k (phase t) then 1 else 0))"
  let ?I = "\<lambda>t. pointers_ok t \<and> decoded (phase t)"
  have I: "?I s" unfolding assms(1)
    by (rule race_run.run_invariant) (auto simp: decoded_step act_step_pointers_ok, simp add: decoded_def)
  have "?I s \<Longrightarrow> authorizedKeys (base s) k = None \<Longrightarrow> StoreKey k \<notin> set (setters xs) \<Longrightarrow> f (play c xs s) \<le> f s" for s
  proof (induction xs arbitrary: s)
    case (Cons x xs)
    have "f (act_step c x s) \<le> f s" using Cons.prems removed_step f_def by blast
    moreover have "authorizedKeys (base (act_step c x s)) k = None \<and> StoreKey k \<notin> set (setters xs)"
      using reload_prefix(2) [of s k "[x]" c] Cons.prems by (cases x) auto
    ultimately show ?case using Cons.IH [of "act_step c x s"] Cons.prems(1) decoded_step act_step_pointers_ok by fastforce
  qed simp
  from this [OF I assms(2,3)] show ?thesis unfolding f_def by linarith
qed

lemma sample_arrive:
  "act_step c (Arrive (sample_dg 1 2 1000000)) (initial sample_reflector) =
     (initial sample_reflector)\<lparr>phase := Checked (sample_dg 1 2 1000000) (sample_probe\<lparr>Sec := 1, Frac := 2\<rparr>) (sample_time 1000000)\<rparr>"
proof -
  have "length (dg_data (sample_dg 1 2 1000000)) = 108" using wf_sample_dg UnmarshalProbePacket_Err by fastforce
  then show ?thesis by (simp add: act_step_def check_step_def)
qed

theorem race_removed_sender_witness:
  "in_flight (zeros 32) (phase (play toy_ed25519 [Arrive (sample_dg 1 2 1000000), Setter (DeleteKey (zeros 32))] (initial sample_reflector)))
   \<and> replies_to (zeros 32) (play toy_ed25519 [Proceed, Proceed, Arrive (sample_dg 0 5 2000000), Proceed, Proceed]
       (play toy_ed25519 [Arrive (sample_dg 1 2 1000000), Setter (DeleteKey (zeros 32))] (initial sample_reflector))) \<le> 1"
  using race_removed_sender [OF refl, of toy_ed25519 "[Arrive (sample_dg 1 2 1000000), Setter (DeleteKey (zeros 32))]" sample_reflector "zeros 32"
      "[Proceed, Proceed, Arrive (sample_dg 0 5 2000000), Proceed, Proceed]"]
  by (simp add: sample_arrive replies_to_def)

text \<open>
  C10 (\<open>race_invariant\<close>). The sender states of a reflector, from its construction on, under every schedule of
  the goroutines, single map operations interleaved with the steps of \<open>Run\<close>. In every sender state, one that a reload has
  detached from the map included, a nonce is non-zero only while the pair waits for its probe 1, and with a
  positive verify interval a pair never has more than two probes; no two senders share a state. A sender that is
  off the allowlist has state only if, with no deletion of its state since, a reload had deleted its key and not yet its state, or
  \<open>Run\<close> stored the state for a probe that it had let pass before the key was deleted. When datagrams and setters do
  not overlap, only senders on the allowlist have state.
\<close>

theorem race_invariant:
  assumes "NewLinuxReflector env tmo sg g ks iv = (Inr r, fds)" "s = play c xs (initial r)"
  shows "(\<forall>a st. store s a = Some st \<longrightarrow> (nonce st \<noteq> 0 \<longrightarrow> pairCount st = 1) \<and> (sint iv > 0 \<longrightarrow> pairCount st \<le> 2))
     \<and> (\<forall>k a. pointers s k = Some a \<longrightarrow> store s a \<noteq> None \<and> (\<forall>k'. pointers s k' = Some a \<longrightarrow> k' = k))
     \<and> (\<forall>k. pointers s k \<noteq> None \<and> authorizedKeys (base s) k = None \<longrightarrow>
          (\<exists>xs1 x xs2. xs = xs1 @ x # xs2 \<and> Setter (DeleteState k) \<notin> set xs2 \<and>
             (x = Setter (DeleteKey k) \<or>
              x = Proceed \<and> authorizedKeys (base (play c xs1 (initial r))) k = None
                \<and> (\<exists>d p now. phase (play c xs1 (initial r)) = Checked d p now \<and> SenderPubkey p = k))))
     \<and> (\<forall>es k. serial c (initial r) es xs \<longrightarrow> pointers s k \<noteq> None \<longrightarrow> authorizedKeys (base s) k \<noteq> None)"
proof (intro conjI)
  note new = NewLinuxReflector_Inr [OF assms(1)]
  have inv: "objects_inv iv s" unfolding assms(2)
    by (rule race_run.run_invariant) (auto simp: objects_inv_act, simp add: objects_inv_def new)
  then show "\<forall>a st. store s a = Some st \<longrightarrow> (nonce st \<noteq> 0 \<longrightarrow> pairCount st = 1) \<and> (sint iv > 0 \<longrightarrow> pairCount st \<le> 2)"
    "\<forall>k a. pointers s k = Some a \<longrightarrow> store s a \<noteq> None \<and> (\<forall>k'. pointers s k' = Some a \<longrightarrow> k' = k)"
    by (auto simp: objects_inv_def sender_inv_def pointers_ok_def)
  show "\<forall>k. pointers s k \<noteq> None \<and> authorizedKeys (base s) k = None \<longrightarrow>
      (\<exists>xs1 x xs2. xs = xs1 @ x # xs2 \<and> Setter (DeleteState k) \<notin> set xs2 \<and>
         (x = Setter (DeleteKey k) \<or>
          x = Proceed \<and> authorizedKeys (base (play c xs1 (initial r))) k = None
            \<and> (\<exists>d p now. phase (play c xs1 (initial r)) = Checked d p now \<and> SenderPubkey p = k)))"
    using stray_origin [of _ c xs r] unfolding assms(2) stray_def makes_stray_def by blast
  show "\<forall>es k. serial c (initial r) es xs \<longrightarrow> pointers s k \<noteq> None \<longrightarrow> authorizedKeys (base s) k \<noteq> None"
  proof (intro allI impI)
    fix es k assume h: "serial c (initial r) es xs" "pointers s k \<noteq> None"
    have abs: "abs_reflector s = exec c es r" using serial_exec [OF h(1)] assms(2) new(1) by (simp add: abs_initial)
    have "reflector_inv (exec c es r)" by (rule exec_inv) (simp add: reflector_inv_def new(1))
    moreover have "senderStates (abs_reflector s) k \<noteq> None"
      using h(2) inv by (auto simp: abs_reflector_def map_comp_def objects_inv_def pointers_ok_def split: option.splits)
    ultimately have "authorizedKeys (abs_reflector s) k \<noteq> None" unfolding abs reflector_inv_def by blast
    then show "authorizedKeys (base s) k \<noteq> None" by simp
  qed
qed

theorem race_invariant_witness:
  "\<exists>xs s a st. NewLinuxReflector sample_env 0 toy_signer (zeros 32) [zeros 32] 30000000000 = (Inr sample_reflector, {4, 3})
     \<and> s = play toy_ed25519 xs (initial sample_reflector) \<and> serial toy_ed25519 (initial sample_reflector) [Dg (sample_dg 1 2 1000000)] xs
     \<and> pointers s (zeros 32) = Some a \<and> authorizedKeys (base s) (zeros 32) \<noteq> None
     \<and> store s a = Some st \<and> nonce st \<noteq> 0 \<and> pairCount st = 1"
proof -
  let ?d = "sample_dg 1 2 1000000" and ?k = "zeros 32 :: bytes"
  let ?xs = "[Arrive ?d, Proceed, Proceed] @ []"
  let ?s = "play toy_ed25519 ?xs (initial sample_reflector)"
  obtain st2 since ch where ps: "pair_step (sample_time 1000000) (dg_random ?d) (sample_probe\<lparr>Sec := 1, Frac := 2\<rparr>)
     (entry_state sample_reflector (sample_time 1000000) ?k\<lparr>pairSourceIP := [10, 0, 0, 1]\<rparr>) = (st2, since, ch)"
    by (metis prod_cases3)
  obtain rep where h: "handle toy_ed25519 ?d sample_reflector
     = (put_state ?k (st2\<lparr>lastTxTime := dg_now_tx ?d\<rparr>) sample_reflector, Sent (reply_bytes rep) (dg_from ?d))"
    by (rule handle_answer [OF sample_reflector_ok wf_sample_dg [of 1 2 1000000] _ refl, where prt = 4000 and addr = "[10, 0, 0, 1]"])
      (use ps in auto)
  have ser: "serial toy_ed25519 (initial sample_reflector) [Dg ?d] ?xs" by (intro serial_dg serial_nil)
  let ?st = "st2\<lparr>lastTxTime := dg_now_tx ?d\<rparr>"
  have "senderStates (abs_reflector ?s) ?k = Some ?st"
    using serial_exec [OF ser] by (simp add: abs_initial apply_event_def h)
  then obtain a where a: "pointers ?s ?k = Some a" "store ?s a = Some ?st"
    by (auto simp: abs_reflector_def map_comp_def split: option.splits)
  have "nonce ?st \<noteq> 0" using pair_step_cases [OF ps] by simp
  with race_invariant [OF sample_reflector_new refl, of toy_ed25519 ?xs] a ser sample_reflector_new show ?thesis by blast
qed

text \<open>
  C37 (\<open>race_leftover_state\<close>). A reload that runs between the lookup of the allowlist and \<open>LoadOrStore\<close> leaves
  sender state behind: the key is off the allowlist, the state that \<open>Run\<close> then stores for it is not deleted, and
  later reloads without the key, which only visit the keys on the list, do not delete it either.
\<close>

theorem race_leftover_state:
  assumes "s = play c ys (initial r0)" "phase s = Idle" "UnmarshalProbePacket (dg_data d) = Ok p" "k = SenderPubkey p"
    and "authorizedKeys (base s) k \<noteq> None" "k \<notin> set keys" "set visited = dom (authorizedKeys (base s))"
    and "s' = play c ([Arrive d] @ map Setter (reload_ops keys visited) @ [Proceed]) s"
    and "k \<notin> set keys'" "set visited' = dom (authorizedKeys (base s'))" "s'' = play c (map Setter (reload_ops keys' visited')) s'"
  shows "authorizedKeys (base s') k = None \<and> senderStates (abs_reflector s') k \<noteq> None
     \<and> authorizedKeys (base s'') k = None \<and> senderStates (abs_reflector s'') k \<noteq> None"
proof -
  let ?s1 = "play c [Arrive d] s"
  let ?s2 = "play c (map Setter (reload_ops keys visited)) ?s1"
  let ?now = "kernelTimestamp (dg_oob d) (dg_now_rx d)"
  have ok: "pointers_ok s" "pointers_ok ?s2" "pointers_ok s''"
    unfolding assms(1,8,11) by (intro play_pointers_ok pointers_ok_initial)+
  have len: "length (dg_data d) = 108" using assms(3) UnmarshalProbePacket_Err by fastforce
  then have s1: "?s1 = s\<lparr>phase := Checked d p ?now\<rparr>"
    using assms(2-5) by (auto simp: act_step_def check_step_def)
  have gone: "authorizedKeys (base ?s2) k = None"
    by (rule play_Setter_gone(2)) (use assms(5-7) in auto)
  have "phase ?s2 = Checked d p ?now" using s1 by (simp only: play_Setter_other(1)) simp
  then have s': "s' = fst (state_step d p ?now ?s2)" using assms(8) by (simp add: race_run.run_append act_step_def)
  from state_step_frame(1,7) [OF ok(2) s'] gone assms(4)
  have g': "authorizedKeys (base s') k = None" and "pointers s' k \<noteq> None" by auto
  moreover have "authorizedKeys (base s'') k = None" unfolding assms(11)
    by (rule play_Setter_stays(2)) (use g' assms(9) in auto)
  moreover have "pointers s'' k = pointers s' k" unfolding assms(11)
    by (rule play_Setter_other(3)) (use g' assms(9,10) in auto)
  moreover have "pointers_ok s'" using state_step_frame(3) [OF ok(2) s'] .
  ultimately show ?thesis using ok(3) by (auto simp: abs_reflector_def map_comp_def pointers_ok_def split: option.splits)
qed

theorem race_leftover_state_witness:
  "let s' = play toy_ed25519 ([Arrive (sample_dg 1 2 1000000)] @ map Setter (reload_ops [] [zeros 32]) @ [Proceed]) (initial sample_reflector)
   in authorizedKeys (base s') (zeros 32) = None \<and> senderStates (abs_reflector s') (zeros 32) \<noteq> None"
proof -
  let ?s = "play toy_ed25519 [] (initial sample_reflector)"
  let ?s' = "play toy_ed25519 ([Arrive (sample_dg 1 2 1000000)] @ map Setter (reload_ops [] [zeros 32]) @ [Proceed]) ?s"
  let ?p = "sample_probe\<lparr>Sec := 1, Frac := 2\<rparr>"
  have dom: "set [] = dom (authorizedKeys (base ?s'))"
  proof -
    let ?s2 = "play toy_ed25519 ([Arrive (sample_dg 1 2 1000000)] @ map Setter (reload_ops [] [zeros 32])) ?s"
    have "pointers_ok ?s2" by (intro play_pointers_ok pointers_ok_initial)
    moreover have "authorizedKeys (base ?s2) = Map.empty"
      by (simp add: sample_arrive reload_ops_def fun_eq_iff) (simp add: sample_reflector_def)
    ultimately show ?thesis
      using act_step_auth [of ?s2 Proceed toy_ed25519] by (simp add: race_run.run_append del: set_empty)
  qed
  have "phase ?s = Idle" "zeros 32 = SenderPubkey ?p" "authorizedKeys (base ?s) (zeros 32) \<noteq> None" "zeros 32 \<notin> set []"
    "set [zeros 32] = dom (authorizedKeys (base ?s))" using sample_dom by simp_all
  from race_leftover_state [OF refl this(1) wf_sample_dg [of 1 2 1000000] this(2-5) refl this(4) dom refl] show ?thesis
    by (simp add: Let_def)
qed

end
