(* ===== verification/Spec2Isabelle.thy ===== *)
theory Spec2Isabelle
  imports Anchor Presentation Reflector_Race
begin

text \<open>
  Verification of \<open>plugin-rtt-anchor\<close>, a Go program that produces evidence of where a machine is from
  signed round-trip times. An \<^emph>\<open>anchor\<close> at a known place answers probes of enrolled attesters; an \<^emph>\<open>attester\<close>
  sends two signed probes. The anchor answers the first with a random nonce, the attester signs the
  nonce into the second, and the anchor's signed reply to the second carries the interval that it
  measured between its first reply and the second probe. Half of that interval at the speed of light
  bounds the distance.

  \<^bold>\<open>Parts of the program and theories\<close>

  \<^item> \<open>Go_Prelude\<close>: the parts of Go the sources use. Calls return \<open>Ok\<close>, \<open>Err\<close> or \<open>Panic\<close>; slices check their
    bounds; \<open>encoding/binary\<close> and \<open>time\<close> (wall and monotonic readings, saturating \<open>Sub\<close>). Its locales are
    the contracts the components share: \<open>codec\<close> and \<open>fixed_codec\<close> (a wire format that accepts exactly its
    encodings; interpreted by probes, replies and offsets) and \<open>event_system\<close> (runs as sequences of
    events; interpreted by the reflector, atomic and interleaved). \<open>Go_Text\<close> has text, lines, hex, base64 and JSON,
    \<open>Go_Float\<close> the comparisons of \<open>float64\<close> bit patterns, \<open>Go_Net\<close> the text form of IP addresses, \<open>Go_Format\<close> decimal
    numbers, fixed-point numbers and RFC 3339 dates with the calendar they are checked against.
  \<^item> \<open>Signer\<close> and \<open>Packet\<close>: \<open>internal/signed/packet.go\<close>. The locales \<open>message_signer\<close> and \<open>signed_object\<close> are
    the interface \<open>Signer\<close> and what it gives to the three kinds of signed objects. Ed25519 itself is a
    parameter, the record \<open>ed25519\<close>; \<open>ed25519_ok\<close> states its documented sizes and that its own signatures
    verify, and a toy scheme shows that this can hold. No unforgeability is assumed anywhere: the
    theorems say which bytes a successful check is a check of.
  \<^item> \<open>Location_Offset\<close>: \<open>internal/offset/offset.go\<close>, chains of signed location statements.
  \<^item> \<open>Kernel_Time\<close>: the parsing of ancillary data for kernel timestamps (\<open>kernelTimestamp\<close> in
    \<open>reflector_linux.go\<close>), used at both ends.
  \<^item> \<open>Reflector\<close>: \<open>internal/signed/reflector_linux.go\<close> and \<open>reflector.go\<close>. \<open>handle\<close> is the loop body of \<open>Run\<close> for one
    datagram, with one constructor of \<open>drop_reason\<close> for each \<open>continue\<close>; \<open>SetAuthorizedKeys\<close> and
    \<open>SetOffsets\<close> are the operations of other goroutines on the same state. Each acts as a whole.
  \<^item> \<open>Reflector_Race\<close>: the same reflector with the goroutines interleaved at each access to shared state. Sender states
    are objects behind pointers, a reload is the sequence of its operations on the two maps, and \<open>Run\<close> may be
    anywhere between receiving and answering when they happen.
  \<^item> \<open>Sender\<close>: \<open>internal/signed/sender_linux.go\<close> and \<open>sender.go\<close>: single probes, challenged and unchallenged pairs,
    the busy-poll and blocking loops, construction and \<open>Close\<close>.
  \<^item> \<open>Geo\<close>: \<open>internal/geo/distance.go\<close> in IEEE arithmetic, as exact rationals rounded to 53 bits.
  \<^item> \<open>Keys\<close>: \<open>internal/keys/keys.go\<close>, key files, public keys as text, the allowlist.
  \<^item> \<open>Anchor\<close>: \<open>cmd/anchor/main.go\<close>. \<open>start\<close> is \<open>run\<close> up to the three goroutines; afterwards \<open>anchor_exec\<close> runs any
    interleaving of datagrams, refresh ticks, reload ticks and loop ends.
  \<^item> \<open>Attester\<close>: \<open>cmd/attester/main.go\<close>: \<open>observe\<close>, \<open>measure\<close> and the loop of \<open>run\<close>. \<open>Presentation\<close>: its
    output, \<open>report\<close> and \<open>render\<close>: JSON documents as trees, text byte by byte.
  \<^item> This theory: what spans anchor and attester.

  \<^bold>\<open>What is shown\<close>

  \<^item> Wire formats: the decoders of probes, replies and offset chains accept exactly the encodings of
    well-formed values and never panic; a signature check is a check of exactly the received bytes; the
    reflector's fixed-position parser agrees with the offset encoder.
  \<^item> Reflector: a challenged reply implies an earlier answered probe of the same sender and address whose
    nonce it presents, with no answer in between, and carries the measured interval; honest pairs are
    challenged; the exact condition for an answer; senders do not
    influence each other; no input makes the loop panic; descriptors are not leaked.
  \<^item> Interleavings: schedules that do not interleave give exactly the atomic model; under every schedule a
    challenged reply means the same, a reload never leaves a kept sender without authorization, and a removed
    sender gets at most the one reply that was under way. \<open>race_invariant\<close> has the invariant of the sender states:
    a nonce is live only inside a pair, with a positive verify interval a pair has at most two probes, no state is
    shared. State is kept only for enrolled senders when nothing overlaps; the invariant names the two steps
    that can make it otherwise, and \<open>race_leftover_state\<close> shows how a reload leaves some behind for good.
  \<^item> Sender: a returned reply was received, matches the probe and is signed by the expected key; waiting
    ends at the deadline; whole pairs, challenged or not.
  \<^item> Keys and distances: round trips of key text and key files, the allowlist against its description,
    the accuracy and monotonicity of the distance bound.
  \<^item> Anchor and attester: the anchor's reflector does what the calls listed by \<open>reflector_calls\<close> do to a new reflector (a
    reload that fails, for a missing file too, is no call); each of its replies carries the configured
    position under its signature and the figures of the pair as the probe finds it; the attester's raw output is verifiable evidence for its summary; its loop
    stops after the requested number of pairs.
  \<^item> Output: a printed JSON document has one fixed shape and carries the evidence for what it says; when nothing is
    printed; times read back; how far the distance on the terminal is from the bound.
  \<^item> Together: a challenged pair end to end, and the reported distance as a function of the anchor's two
    clock readings.

  \<^bold>\<open>Scripts and bounds\<close>

  The loops that wait for the outside world (\<open>Run\<close>, \<open>busy_loop\<close>, \<open>block_loop\<close>, \<open>attest_loop\<close>) recurse over a
  script: the list of what the calls of each turn return. A script that ends leaves the loop waiting,
  which is a value of its own (\<open>Continue\<close>, \<open>Pending\<close>, \<open>Waiting\<close>, \<open>StillRunning\<close>), so that no theorem takes not
  returning for success; that the loops do return is shown for every script in which the clock is
  seen at the deadline (\<open>exchange_returns\<close>, \<open>attester_counts\<close>). Integers keep their width: sequence numbers are
  32-bit words that wrap, durations 64-bit words read with \<open>sint\<close>, the sum of round trips wraps.
  The depth bound 2 of offset chains is the measure of the decoder's termination. Three choices are wider than
  the code: \<open>pairCount\<close> is a natural number where Go has an \<open>int\<close> (they differ after \<open>2 ^ 63\<close> probes of one sender without
  a reset), the readings of \<open>gotime\<close> are unbounded integers, and the panic of \<open>NewTicker\<close>, which ends the process from
  inside the goroutine that calls it, is a step of \<open>start\<close>. \<open>anchor_exec\<close> interleaves whole datagrams and ticks;
  interleaving inside them is the subject of \<open>Reflector_Race\<close>.

  \<^bold>\<open>Not modelled\<close>

  \<^item> Logging (\<open>SetLogger\<close>, \<open>newLogger\<close>), flag parsing and signal handling: input and output around the logic.
  \<^item> The digits that \<open>encoding/json\<close> chooses for a number and its escapes in strings; the texts of errors, which are
    an argument of \<open>print_report\<close>.
  \<^item> The kernel, the scheduler (\<open>LockOSThread\<close>) and the network beyond what their calls return.
  \<^item> \<open>stub_fallback.go\<close>: constructors for other systems that only return an error.
\<close>

section \<open>A challenged pair end to end\<close>

text \<open>An exchange that delivers a datagram with a kernel timestamp at its first busy poll.\<close>

definition delivers :: "exchange \<Rightarrow> bytes \<Rightarrow> bool" where
  "delivers env b \<longleftrightarrow> (\<exists>e es n sec nsec fb. ex_sendto env = None \<and> ex_polls env = e # es \<and> po_epoll e = (n, None) \<and> n > 0
     \<and> Before (po_now e) (Add (ex_now env) busyPollWindow) \<and> po_recv e = RecvMsg b (timestamp_cmsg sec nsec) fb)"

lemma delivers_reply:
  assumes "delivers env (reply_bytes reply)" "wf_reply reply"
    and "Seq (Probe reply) = Seq probe" "Sec (Probe reply) = Sec probe" "Frac (Probe reply) = Frac probe"
    and "verify \<Longrightarrow> ProbePacket_Verify c (Probe reply) \<and> AuthorityPubkey reply = remotePubkey s \<and> ReplyPacket_Verify c reply"
  obtains rtt where "sendAndRecv c s buf probe verify busyPollWindow env = ([buf], Returns (Inr (rtt, reply)))"
proof -
  have "sint busyPollWindow > 0" by (simp add: busyPollWindow_def)
  with assms show thesis
    using that sendAndRecv_first [of env _ _ _ busyPollWindow reply _ _ _ probe verify c s buf]
    unfolding delivers_def by metis
qed

text \<open>
  C2 (\<open>end_to_end_challenged_pair\<close>). Sender and reflector together. The sender's key is on the anchor's
  allowlist, the sender expects the anchor's key, no pair of this sender is open or rate limited, both
  probes reach the anchor from one IPv4 address, the second within \<open>stalePairTimeout\<close> of reply 0, the
  drawn nonce is not zero, and the network delivers each reply. Then \<open>probePairChallenged\<close> returns a
  result whose second reply is signed by the anchor, has the challenged bit, carries the time from
  the anchor's transmission of reply 0 to its reception of probe 1, and echoes the drawn nonce.
\<close>

theorem end_to_end_challenged_pair:
  assumes s: "signer_ok c (signer s)" and r: "reflector_ok c r"
    and keys: "k = drop 32 (key (signer s))" "authorizedKeys r k \<noteq> None" "remotePubkey s = drop 32 (key (rsigner r))"
    and now: "now0 = kernelTimestamp (dg_oob t0) (dg_now_rx t0)" "now1 = kernelTimestamp (dg_oob t1) (dg_now_rx t1)"
    and idle: "\<not> rate_limited r now0 (current_state r k)" "pairCount (entry_state r now0 k) = 0"
    and src: "dg_from t0 = SockaddrInet4 q0 addr" "dg_from t1 = SockaddrInet4 q1 addr"
    and nonce: "randomNonce (dg_random t0) \<noteq> 0"
    and fresh: "\<not> IsZero (dg_now_tx t0)" "sint (Sub now1 (dg_now_tx t0)) \<le> sint stalePairTimeout"
    and net: "\<forall>b. delivers (net0 b) b" "\<forall>b. delivers (net1 b) b"
  shows "\<exists>p0 p1 b0 b1 r1 r2 res.
     handle c (t0\<lparr>dg_data := probe_bytes p0\<rparr>) r = (r1, Sent b0 (dg_from t0))
     \<and> handle c (t1\<lparr>dg_data := probe_bytes p1\<rparr>) r1 = (r2, Sent b1 (dg_from t1))
     \<and> probePairChallenged c tnow (net0 b0) (net1 b1) s
         = (s\<lparr>seq := seq s + 2\<rparr>, [probe_bytes p0, probe_bytes p1], Returns (Inr res))
     \<and> UnmarshalReplyPacket b1 = Ok (Reply1 res) \<and> ReplyPacket_Verify c (Reply1 res) \<and> Challenged (Reply1 res)
     \<and> AuthorityPubkey (Reply1 res) = remotePubkey s
     \<and> SinceLastRxNs (Reply1 res) = Sub now1 (dg_now_tx t0)
     \<and> presentedNonce (Probe (Reply1 res)) = randomNonce (dg_random t0)"
proof -
  obtain p0 where p0: "marshalled (NewProbePacket c tnow (seq s + 1) (signer s)) = Inr (p0, probe_bytes p0)" "wf_probe p0"
    "SenderPubkey p0 = k"
    using marshalled_new [OF s] keys(1) by metis
  obtain p1 where p1: "marshalled (newChallengedProbePacket c (seq s + 2) (signer s) (randomNonce (dg_random t0))) = Inr (p1, probe_bytes p1)"
    "wf_probe p1" "presentedNonce p1 = randomNonce (dg_random t0)" "SenderPubkey p1 = k" "ProbePacket_Verify c p1"
    using marshalled_challenged [OF s] keys(1) by metis
  let ?d0 = "t0\<lparr>dg_data := probe_bytes p0\<rparr>" and ?d1 = "t1\<lparr>dg_data := probe_bytes p1\<rparr>"
  have u: "UnmarshalProbePacket (dg_data ?d0) = Ok p0" "UnmarshalProbePacket (dg_data ?d1) = Ok p1"
    using p0(2) p1(2) by (simp_all add: Unmarshal_probe_bytes)
  obtain r1 r2 rep0 rep1 where h:
    "handle c ?d0 r = (r1, Sent (reply_bytes rep0) (dg_from t0))" "handle c ?d1 r1 = (r2, Sent (reply_bytes rep1) (dg_from t1))"
    "UnmarshalReplyPacket (reply_bytes rep0) = Ok rep0" "UnmarshalReplyPacket (reply_bytes rep1) = Ok rep1"
    "ReplyPacket_Verify c rep1" "Probe rep0 = p0" "Probe rep1 = p1"
    "SinceLastRxNs rep0 = randomNonce (dg_random t0)" "Challenged rep1" "SinceLastRxNs rep1 = Sub now1 (dg_now_tx t0)"
    and a: "AuthorityPubkey rep1 = drop 32 (key (rsigner r))"
    using pair_completes [OF r keys(2) u(1) p0(3) u(2) p1(4), of now0 now1 q0 addr q1] now idle src nonce fresh p1(3) by auto
  have auth: "AuthorityPubkey rep1 = remotePubkey s" using a keys(3) by simp
  have wf: "wf_reply rep0" "wf_reply rep1" using h(3,4) reply_wire.dec_iff by blast+
  obtain rtt0 where x0: "sendAndRecv c (s\<lparr>seq := seq s + 1\<rparr>) (probe_bytes p0) p0 False busyPollWindow (net0 (reply_bytes rep0))
      = ([probe_bytes p0], Returns (Inr (rtt0, rep0)))"
    by (rule delivers_reply [OF net(1) [rule_format] wf(1), of p0 False]) (use h(6) in auto)
  obtain rtt1 where x1: "sendAndRecv c (s\<lparr>seq := seq s + 2\<rparr>) (probe_bytes p1) p1 True busyPollWindow (net1 (reply_bytes rep1))
      = ([probe_bytes p1], Returns (Inr (rtt1, rep1)))"
    using delivers_reply [OF net(2) [rule_format] wf(2), of p1 True c "s\<lparr>seq := seq s + 2\<rparr>"] h(5,7) auth p1(5) by auto
  have "probePairChallenged c tnow (net0 (reply_bytes rep0)) (net1 (reply_bytes rep1)) s
      = (s\<lparr>seq := seq s + 2\<rparr>, [probe_bytes p0, probe_bytes p1], Returns (Inr \<lparr>RTT0 = rtt0, RTT1 = rtt1, Reply0 = rep0, Reply1 = rep1\<rparr>))"
    using challenged_pair_completes [OF p0(1) _ x0 x1] p1(1) h(8) by simp
  with h auth p1(3) show ?thesis
    by (intro exI [of _ p0] exI [of _ p1] exI [of _ "reply_bytes rep0"] exI [of _ "reply_bytes rep1"] exI [of _ r1] exI [of _ r2]
        exI [of _ "\<lparr>RTT0 = rtt0, RTT1 = rtt1, Reply0 = rep0, Reply1 = rep1\<rparr>"]) simp
qed

theorem end_to_end_challenged_pair_witness:
  "\<exists>b0 b1 s' sent res. probePairChallenged toy_ed25519 \<lparr>wall = 0, mono = None\<rparr> (sample_exchange b0) (sample_exchange b1) sample_sender
       = (s', sent, Returns (Inr res)) \<and> Challenged (Reply1 res) \<and> sint (SinceLastRxNs (Reply1 res)) = 999000"
proof -
  let ?r = "sample_reflector\<lparr>authorizedKeys := [replicate 32 1 \<mapsto> ()]\<rparr>"
  have ok: "reflector_ok toy_ed25519 ?r" using sample_reflector_ok by (simp add: reflector_ok_def)
  have sg: "signer_ok toy_ed25519 (signer sample_sender)" by (simp add: sample_sender_def toy_signer_ok)
  have st: "current_state ?r k = new_senderState" for k by (simp add: current_state_def)
  have idle: "\<not> rate_limited ?r t (current_state ?r k)" "pairCount (entry_state ?r t k) = 0" for t k
    by (simp_all add: st rate_limited_def entry_state_def window_reset_def stale_reset_def new_senderState_def)
  have net: "\<forall>b. delivers (sample_exchange b) b"
    unfolding delivers_def by (intro allI exI conjI) (rule sample_exchange_sel | simp)+
  have k: "authorizedKeys ?r (drop 32 (key (signer sample_sender))) \<noteq> None" "remotePubkey sample_sender = drop 32 (key (rsigner ?r))"
    by (simp_all add: sample_sender_def sample_reflector_def toy_signer_def)
  note e = sample_elapsed
  from end_to_end_challenged_pair [OF sg ok refl k refl refl idle, where ?t0.0 = "sample_dg 0 0 1000000" and ?t1.0 = "sample_dg 0 0 2000000"
      and addr = "[10, 0, 0, 1]" and ?q0.0 = 4000 and ?q1.0 = 4000 and ?net0.0 = sample_exchange and ?net1.0 = sample_exchange
      and tnow = "\<lparr>wall = 0, mono = None\<rparr>"] net e
  obtain p0 p1 b0 b1 res where "probePairChallenged toy_ed25519 \<lparr>wall = 0, mono = None\<rparr> (sample_exchange b0) (sample_exchange b1) sample_sender
     = (sample_sender\<lparr>seq := seq sample_sender + 2\<rparr>, [probe_bytes p0, probe_bytes p1], Returns (Inr res))"
    "Challenged (Reply1 res)" "SinceLastRxNs (Reply1 res) = Sub (sample_time 2000000) (sample_time 1001000)"
    by (auto simp: stalePairTimeout_def)
  with e show ?thesis by (intro exI [of _ b0] exI [of _ b1] exI) auto
qed

section \<open>From the anchor's clock to the reported distance\<close>

text \<open>
  C5 (\<open>reported_distance\<close>). From the anchor's two clock readings to the bound the attester prints, through
  reply, wire format, pair and floating point: let \<open>n\<close> be the nanoseconds from the transmission of reply 0
  to the reception of probe 1, for an anchor whose reference offset has no round trip of its own. When \<open>n\<close>
  is positive (and fits into 63 bits) the bound is half of it at the vacuum speed of light, within a
  relative error of \<open>2 ^ - 51\<close>. When the clock was stepped back by at least the interval, the
  bound is zero metres, so the report then claims that the attester stands at the anchor.
\<close>

theorem reported_distance:
  assumes "reflector_ok c r" "snd (handle c d r) = Sent b to" "UnmarshalReplyPacket b = Ok (Reply1 res)"
    and "reference_rtt (offsets r) = 0"
    and "now = kernelTimestamp (dg_oob d) (dg_now_rx d)" "st = entry_state r now (SenderPubkey (Probe (Reply1 res)))"
    and "pairCount st \<noteq> 0" "\<not> IsZero (lastTxTime st)" "n = time_diff now (lastTxTime st)"
    and "observe c fl t sq res anchorPub pub = Ok obs"
  shows "(0 < n \<and> n < 2 ^ 63 \<longrightarrow>
      \<bar>ProvableMaxDistanceM obs - of_int n / 1000000000 / 2 * 299792458\<bar> \<le> of_int n / 1000000000 / 2 * 299792458 / 2 ^ 51)
    \<and> (n \<le> 0 \<longrightarrow> ProvableMaxDistanceM obs = 0)"
proof -
  have "RttNs (Reply1 res) = Sub now (lastTxTime st)"
    using assms(1,2)
  proof (cases rule: sent_stepped)
    case (stepped p now' st' prt addr st2 since ch rep)
    then have "rep = Reply1 res" "now' = now" "st' = st" using assms(3,5,6) by auto
    with pair_step_cases [OF stepped(9)] stepped(21) assms(4,7,8) show ?thesis by auto
  qed
  moreover have "ProvableMaxDistanceM obs = ProvableMaxDistance (RttNs (Reply1 res))"
    using assms(10) by (auto simp: observe_def Let_def bind_r_eq_Ok)
  ultimately have o: "ProvableMaxDistanceM obs = ProvableMaxDistance (Sub now (lastTxTime st))" by simp
  have s: "sint (Sub now (lastTxTime st)) = sat64 n" using assms(9) by (simp add: sint_Sub)
  show ?thesis
  proof (intro conjI impI)
    assume "0 < n \<and> n < 2 ^ 63"
    then have e: "sint (Sub now (lastTxTime st)) = n" using s by (simp add: sat64_def)
    with \<open>0 < n \<and> n < 2 ^ 63\<close> ProvableMaxDistance_error [of "Sub now (lastTxTime st)"]
    show "\<bar>ProvableMaxDistanceM obs - of_int n / 1000000000 / 2 * 299792458\<bar> \<le> of_int n / 1000000000 / 2 * 299792458 / 2 ^ 51"
      unfolding o e by simp
  next
    assume "n \<le> 0"
    then have "sint (Sub now (lastTxTime st)) \<le> 0" using s by (simp add: sat64_def)
    then show "ProvableMaxDistanceM obs = 0" by (simp add: o ProvableMaxDistance_def)
  qed
qed

theorem reported_distance_witness:
  "\<exists>b res obs. snd (handle toy_ed25519 (sample_dg 0 5 499) stepped_reflector) = Sent b (SockaddrInet4 4000 [10, 0, 0, 1])
     \<and> UnmarshalReplyPacket b = Ok (Reply1 res)
     \<and> observe toy_ed25519 sample_attester_flags (sample_time 600) 1 res (zeros 32) (zeros 32) = Ok obs
     \<and> ProvableMaxDistanceM obs = 0"
proof -
  obtain rep where h: "snd (handle toy_ed25519 (sample_dg 0 5 499) stepped_reflector) = Sent (reply_bytes rep) (SockaddrInet4 4000 [10, 0, 0, 1])"
    "UnmarshalReplyPacket (reply_bytes rep) = Ok rep" "SenderPubkey (Probe rep) = zeros 32" "reflector_ok toy_ed25519 stepped_reflector"
    "wf_reply rep" "pairCount (entry_state stepped_reflector (sample_time 499) (zeros 32)) = 1"
    "lastTxTime (entry_state stepped_reflector (sample_time 499) (zeros 32)) = sample_time 500"
    "time_diff (sample_time 499) (sample_time 500) = - 1" "\<not> IsZero (sample_time 500)"
    by (rule stepped_answer)
  let ?res = "\<lparr>RTT0 = 0, RTT1 = 0, Reply0 = rep, Reply1 = rep\<rparr> :: ProbePairResult"
  obtain obs where o: "observe toy_ed25519 sample_attester_flags (sample_time 600) 1 ?res (zeros 32) (zeros 32) = Ok obs"
    using observe_ok [of ?res] h(5) by (metis ProbePairResult.select_convs(3,4))
  have r: "reference_rtt (offsets stepped_reflector) = 0"
    by (simp add: stepped_reflector_def sample_reflector_def reference_rtt_def location_data_def)
  have u: "UnmarshalReplyPacket (reply_bytes rep) = Ok (Reply1 ?res)" using h(2) by simp
  from reported_distance [OF h(4,1) u r refl refl _ _ refl o] h o show ?thesis
    by (intro exI [of _ "reply_bytes rep"] exI [of _ ?res] exI [of _ obs]) auto
qed

end
